theory Spec2Isabelle
  imports Main "HOL-Library.Word"
begin

section \<open>JavaScript strings and numbers as the decoders use them\<close>

text \<open>
  Strings are lists of 8-bit characters (scanned payloads are ASCII hex text), bytes are
  8-bit words, and a JavaScript number that comes out of \<open>parseInt\<close> is an
  \<open>int option\<close>, with \<open>None\<close> for \<open>NaN\<close>.
\<close>

type_synonym byte = "8 word"
type_synonym jsnumber = "int option"

definition substr :: "string \<Rightarrow> int \<Rightarrow> int \<Rightarrow> string" where
  \<comment> \<open>\<open>s.substr(start, length)\<close>: a negative start counts from the end, a negative length is 0.\<close>
  "substr s start len =
     (let size = int (length s);
          intStart = (if start < 0 then max (size + start) 0 else min start size);
          intLength = min (max len 0) size;
          intEnd = min (intStart + intLength) size
      in take (nat (intEnd - intStart)) (drop (nat intStart) s))"

definition substr_from :: "string \<Rightarrow> int \<Rightarrow> string" where
  \<comment> \<open>\<open>s.substr(start)\<close>, up to the end of the string.\<close>
  "substr_from s start =
     (let size = int (length s);
          intStart = (if start < 0 then max (size + start) 0 else min start size)
      in drop (nat intStart) s)"

definition slice :: "string \<Rightarrow> int \<Rightarrow> int \<Rightarrow> string" where
  \<comment> \<open>\<open>s.slice(start, end)\<close>: both indices count from the end when negative.\<close>
  "slice s start end =
     (let size = int (length s);
          from = (if start < 0 then max (size + start) 0 else min start size);
          to = (if end < 0 then max (size + end) 0 else min end size)
      in take (nat (to - from)) (drop (nat from) s))"

definition slice_from :: "string \<Rightarrow> int \<Rightarrow> string" where
  \<comment> \<open>\<open>s.slice(start)\<close>.\<close>
  "slice_from s start =
     (let size = int (length s);
          from = (if start < 0 then max (size + start) 0 else min start size)
      in drop (nat from) s)"

definition charAt :: "string \<Rightarrow> nat \<Rightarrow> string option" where
  \<comment> \<open>\<open>s[i]\<close>: a one-character string, or \<open>undefined\<close> past the end.\<close>
  "charAt s i = (if i < length s then Some [s ! i] else None)"

definition isWhiteSpace :: "char \<Rightarrow> bool" where
  \<comment> \<open>The white space and line terminator code units below 256.\<close>
  "isWhiteSpace c = ((of_char c :: nat) \<in> {9, 10, 11, 12, 13, 32, 160})"

definition digitVal :: "char \<Rightarrow> nat option" where
  \<comment> \<open>The value of a digit or letter in radix 36, as \<open>parseInt\<close> reads it.\<close>
  "digitVal c =
     (let n = (of_char c :: nat) in
      if 48 \<le> n \<and> n \<le> 57 then Some (n - 48)
      else if 97 \<le> n \<and> n \<le> 122 then Some (n - 87)
      else if 65 \<le> n \<and> n \<le> 90 then Some (n - 55)
      else None)"

definition isRadixDigit :: "nat \<Rightarrow> char \<Rightarrow> bool" where
  "isRadixDigit radix c = (case digitVal c of None \<Rightarrow> False | Some d \<Rightarrow> d < radix)"

definition digitsValue :: "nat \<Rightarrow> string \<Rightarrow> nat" where
  "digitsValue radix Z =
     foldl (\<lambda>acc c. acc * radix + (case digitVal c of None \<Rightarrow> 0 | Some d \<Rightarrow> d)) 0 Z"

definition parseInt :: "string \<Rightarrow> nat \<Rightarrow> jsnumber" where
  \<comment> \<open>\<open>parseInt(string, radix)\<close> for a radix from 2 to 36: leading white space, a sign,
      the \<open>0x\<close> prefix when the radix is 16, then the longest run of digits.\<close>
  "parseInt inputString radix =
     (let S0 = dropWhile isWhiteSpace inputString;
          sign = (if take 1 S0 = ''-'' then - 1 else (1::int));
          S1 = (if take 1 S0 = ''+'' \<or> take 1 S0 = ''-'' then drop 1 S0 else S0);
          S2 = (if radix = 16 \<and> (take 2 S1 = ''0x'' \<or> take 2 S1 = ''0X'') then drop 2 S1 else S1);
          Z = takeWhile (isRadixDigit radix) S2
      in if Z = [] then None else Some (sign * int (digitsValue radix Z)))"

definition orZero :: "jsnumber \<Rightarrow> int" where
  \<comment> \<open>\<open>x || 0\<close> on a number: \<open>NaN\<close> and 0 both give 0.\<close>
  "orZero x = (case x of None \<Rightarrow> 0 | Some n \<Rightarrow> n)"

definition toUint8 :: "jsnumber \<Rightarrow> byte" where
  \<comment> \<open>Storing a number into a \<open>Uint8Array\<close>: \<open>NaN\<close> is 0, an integer wraps modulo 256.\<close>
  "toUint8 x = (case x of None \<Rightarrow> 0 | Some n \<Rightarrow> word_of_int n)"

section \<open>\<open>rawDataToU8A\<close>\<close>

datatype js_exception = RangeError

function stripFiller :: "string \<Rightarrow> string" where
  \<comment> \<open>\<open>while (rawData.substr(-4) === 'ec11') rawData = rawData.substr(0, rawData.length - 4)\<close>\<close>
  "stripFiller rawData =
     (if substr_from rawData (- 4) = ''ec11''
      then stripFiller (substr rawData 0 (int (length rawData) - 4))
      else rawData)"
  by pat_completeness auto
termination
proof (relation "measure length")
  show "wf (measure length)" by simp
next
  fix rawData :: string
  assume a: "substr_from rawData (- 4) = ''ec11''"
  have "length (substr_from rawData (- 4)) \<le> length rawData"
    by (simp add: substr_from_def Let_def)
  with a have "4 \<le> length rawData" by simp
  then show "(substr rawData 0 (int (length rawData) - 4), rawData) \<in> measure length"
    by (simp add: substr_def Let_def)
qed

declare stripFiller.simps [simp del]

function fillBytes :: "string \<Rightarrow> nat \<Rightarrow> nat \<Rightarrow> byte list \<Rightarrow> byte list" where
  \<comment> \<open>\<open>for (let i = 0; i < length; i++) bytes[i] = parseInt(rawData.substr(i * 2, 2), 16)\<close>\<close>
  "fillBytes rawData i len bytes =
     (if i < len
      then fillBytes rawData (i + 1) len
             (bytes[i := toUint8 (parseInt (substr rawData (int i * 2) 2) 16)])
      else bytes)"
  by pat_completeness auto
termination
  by (relation "measure (\<lambda>(rawData, i, len, bytes). len - i)") auto

declare fillBytes.simps [simp del]

definition rawDataToU8A :: "string \<Rightarrow> js_exception + byte list option" where
  \<comment> \<open>\<open>Inr None\<close> is the \<open>null\<close> result; \<open>Inl RangeError\<close> is what
      \<open>new Uint8Array(length)\<close> throws on a negative length.\<close>
  "rawDataToU8A rawData0 =
     (if rawData0 = [] then Inr None
      else
        let rawData1 = (if substr_from rawData0 (- 2) = ''ec''
                        then substr rawData0 0 (int (length rawData0) - 2) else rawData0);
            rawData2 = stripFiller rawData1
        in if substr rawData2 0 1 \<noteq> ''4'' \<or> substr_from rawData2 (- 1) \<noteq> ''0'' then Inr None
           else
             let rawData3 = substr rawData2 1 (int (length rawData2) - 2);
                 length8 = orZero (parseInt (substr rawData3 0 2) 16);
                 length16 = orZero (parseInt (substr rawData3 0 4) 16)
             in if length8 * 2 + 2 = int (length rawData3)
                then (let rawData4 = substr_from rawData3 2; len = length8
                      in if len < 0 then Inl RangeError
                         else Inr (Some (fillBytes rawData4 0 (nat len) (replicate (nat len) 0))))
                else if length16 * 2 + 4 = int (length rawData3)
                then (let rawData4 = substr_from rawData3 4; len = length16
                      in if len < 0 then Inl RangeError
                         else Inr (Some (fillBytes rawData4 0 (nat len) (replicate (nat len) 0))))
                else Inr None)"

section \<open>Hex codecs of the utility library\<close>

definition hexChar :: "nat \<Rightarrow> char" where
  \<comment> \<open>The lower-case hex digit of a value below 16.\<close>
  "hexChar n = char_of (if n < 10 then 48 + n else 87 + n)"

definition byteToHex :: "byte \<Rightarrow> string" where
  "byteToHex b = [hexChar (unat b div 16), hexChar (unat b mod 16)]"

definition u8aToHexBare :: "byte list \<Rightarrow> string" where
  \<comment> \<open>\<open>u8aToHex(value, -1, false)\<close>: two lower-case digits per byte, no prefix.\<close>
  "u8aToHexBare bs = concat (map byteToHex bs)"

definition u8aToHex :: "byte list \<Rightarrow> string" where
  \<comment> \<open>\<open>u8aToHex(value)\<close>: the same digits after \<open>0x\<close>.\<close>
  "u8aToHex bs = ''0x'' @ u8aToHexBare bs"

definition hexStripPrefix :: "string \<Rightarrow> string" where
  \<comment> \<open>\<open>hexStripPrefix(value)\<close>; it is only ever applied to a \<open>u8aToHex\<close> result here.\<close>
  "hexStripPrefix s = (if take 2 s = ''0x'' then drop 2 s else s)"

fun hexPairs :: "string \<Rightarrow> byte list" where
  "hexPairs (c1 # c2 # s) = toUint8 (parseInt [c1, c2] 16) # hexPairs s"
| "hexPairs s = []"

definition hexToU8a :: "string \<Rightarrow> byte list" where
  \<comment> \<open>\<open>hexToU8a(value)\<close> on an empty string or on \<open>0x\<close> followed by an even number of
      hex digits, the only arguments it receives here.\<close>
  "hexToU8a s = hexPairs (hexStripPrefix s)"

section \<open>\<open>constructDataFromBytes\<close>\<close>

definition CRYPTO_ED25519 :: string where "CRYPTO_ED25519 = ''00''"
definition CRYPTO_SR25519 :: string where "CRYPTO_SR25519 = ''01''"
definition CMD_SIGN_MORTAL :: string where "CMD_SIGN_MORTAL = ''00''"
definition CMD_SIGN_HASH :: string where "CMD_SIGN_HASH = ''01''"
definition CMD_SIGN_IMMORTAL :: string where "CMD_SIGN_IMMORTAL = ''02''"
definition CMD_SIGN_MSG :: string where "CMD_SIGN_MSG = ''03''"

text \<open>
  Every \<open>throw\<close> of the function is a constructor, named after the error kind it stands
  for:
  \<^item> \<open>MalformedFrame\<close>: \<open>new Error(strings.ERROR_WRONG_RAW)\<close>, before the \<open>try\<close>;
  \<^item> \<open>MalformedAction\<close>: \<open>new Error()\<close> of the Ethereum case;
  \<^item> \<open>UnknownNetwork\<close>: \<open>new Error()\<close> after \<open>networks.get\<close> found nothing, inside the
    inner \<open>try\<close>;
  \<^item> \<open>LibraryError\<close>: whatever \<open>compactFromU8a\<close>, \<open>blake2b\<close> or \<open>encodeAddress\<close> throw;
  \<^item> \<open>MalformedSubstratePayload\<close>: the error of the inner \<open>catch\<close>, whose message ends
    with \<open>uosAfterFrames\<close>;
  \<^item> \<open>UnrecognizedPayloadType\<close>: the error of the \<open>default\<close> case, whose message ends
    with \<open>bytes\<close>.
\<close>

datatype error =
    MalformedFrame
  | MalformedAction
  | UnknownNetwork
  | LibraryError
  | MalformedSubstratePayload string
  | UnrecognizedPayloadType "byte list"

datatype action = signData | signTransaction

datatype crypto = ed25519 | sr25519

datatype payload_data = DataU8a "byte list" | DataString string

text \<open>
  Modelled from the spec: the type \<open>SubstrateNetworkParams\<close> of \<open>types/networkTypes\<close> is
  not part of the sources; the decoder reads its \<open>prefix\<close> field only, the address-format
  parameter of the network.
\<close>

record SubstrateNetworkParams =
  prefix :: int

text \<open>
  The three result shapes of \<open>types/scannerTypes\<close>, with the fields the decoder assigns.
  A field that a path leaves unset, or sets to \<open>null\<close> or \<open>undefined\<close>, is \<open>None\<close>.
\<close>

record SubstrateMultiParsedData =
  currentFrame :: jsnumber
  frameCount :: jsnumber
  isMultipart :: bool
  partData :: string

record EthereumParsedData =
  eth_action :: "action option"
  eth_data_account :: string
  eth_data_rlp :: "string option"
  eth_data_data :: "string option"

record SubstrateCompletedParsedData =
  sub_action :: "action option"
  sub_oversized :: "bool option"
  sub_isHash :: "bool option"
  sub_data_crypto :: "crypto option"
  sub_data_specVersion :: jsnumber
  sub_data_genesisHash :: string
  sub_data_rawPayload :: "byte list option"
  sub_data_data :: "payload_data option"
  sub_data_account :: "string option"

datatype ParsedData =
    Multi SubstrateMultiParsedData
  | Ethereum EthereumParsedData
  | Substrate SubstrateCompletedParsedData

text \<open>
  The functions the decoder calls and whose code is elsewhere: \<open>compactFromU8a\<close> (of which
  only the offset is used) and \<open>encodeAddress\<close> of the utility libraries, \<open>blake2b\<close> of
  \<open>utils/native\<close>. Each may throw, which is \<open>None\<close>.
\<close>

record externals =
  compactFromU8a :: "byte list \<Rightarrow> nat option"
  blake2b :: "string \<Rightarrow> string option"
  encodeAddress :: "byte list \<Rightarrow> int \<Rightarrow> string option"

definition gt :: "jsnumber \<Rightarrow> int \<Rightarrow> bool" where
  \<comment> \<open>\<open>x > k\<close> on numbers: false when \<open>x\<close> is \<open>NaN\<close>.\<close>
  "gt x k = (case x of None \<Rightarrow> False | Some n \<Rightarrow> n > k)"

definition ethereumPayload :: "string \<Rightarrow> string \<Rightarrow> error + EthereumParsedData" where
  \<comment> \<open>\<open>case '45'\<close>\<close>
  "ethereumPayload uosAfterFrames firstByte =
     (let action = (if firstByte = ''00'' \<or> firstByte = ''01'' then Some signData
                    else if firstByte = ''01'' then Some signTransaction
                    else None);
          address = substr uosAfterFrames 4 44
      in case action of
           Some signData \<Rightarrow>
             Inr \<lparr>eth_action = action, eth_data_account = address,
                  eth_data_rlp = charAt uosAfterFrames 13, eth_data_data = None\<rparr>
         | Some signTransaction \<Rightarrow>
             Inr \<lparr>eth_action = action, eth_data_account = address,
                  eth_data_rlp = None, eth_data_data = charAt uosAfterFrames 13\<rparr>
         | None \<Rightarrow> Inl MalformedAction)"

definition substrateBody ::
  "externals \<Rightarrow> (string \<rightharpoonup> SubstrateNetworkParams) \<Rightarrow> string \<Rightarrow> string \<Rightarrow> string
     \<Rightarrow> error + SubstrateCompletedParsedData" where
  \<comment> \<open>The body of the inner \<open>try\<close> of \<open>case '53'\<close>.\<close>
  "substrateBody ext networks uosAfterFrames firstByte secondByte =
     (let crypto = (if firstByte = CRYPTO_ED25519 then Some ed25519
                    else if firstByte = CRYPTO_SR25519 then Some sr25519
                    else None);
          pubKeyHex = substr uosAfterFrames 6 64;
          publicKeyAsBytes = hexToU8a (''0x'' @ pubKeyHex);
          hexEncodedData = ''0x'' @ slice_from uosAfterFrames 70;
          hexPayload = slice hexEncodedData 0 (- 64);
          specVersion = parseInt (substr hexEncodedData (- 70) (- 64)) 10;
          genesisHash = ''0x'' @ substr_from hexEncodedData (- 64);
          rawPayload = hexToU8a hexPayload;
          isOversized = (length rawPayload > 256)
      in case networks genesisHash of
           None \<Rightarrow> Inl UnknownNetwork
         | Some network \<Rightarrow>
             (if secondByte = CMD_SIGN_MORTAL \<or> secondByte = CMD_SIGN_IMMORTAL then
               (case compactFromU8a ext rawPayload of
                  None \<Rightarrow> Inl LibraryError
                | Some offset \<Rightarrow>
                    (let payload = drop offset rawPayload in
                     (case (if isOversized
                            then map_option DataString (blake2b ext (u8aToHexBare payload))
                            else Some (DataU8a rawPayload)) of
                        None \<Rightarrow> Inl LibraryError
                      | Some d \<Rightarrow>
                          (case encodeAddress ext publicKeyAsBytes (prefix network) of
                             None \<Rightarrow> Inl LibraryError
                           | Some account \<Rightarrow>
                               Inr \<lparr>sub_action = Some signTransaction,
                                    sub_oversized = Some isOversized,
                                    sub_isHash = Some isOversized,
                                    sub_data_crypto = crypto,
                                    sub_data_specVersion = specVersion,
                                    sub_data_genesisHash = genesisHash,
                                    sub_data_rawPayload = Some rawPayload,
                                    sub_data_data = Some d,
                                    sub_data_account = Some account\<rparr>))))
             else if secondByte = CMD_SIGN_HASH \<or> secondByte = CMD_SIGN_MSG then
               (case encodeAddress ext publicKeyAsBytes (prefix network) of
                  None \<Rightarrow> Inl LibraryError
                | Some account \<Rightarrow>
                    Inr \<lparr>sub_action = Some signData,
                         sub_oversized = Some False,
                         sub_isHash = Some (if secondByte = CMD_SIGN_HASH then True else False),
                         sub_data_crypto = crypto,
                         sub_data_specVersion = specVersion,
                         sub_data_genesisHash = genesisHash,
                         sub_data_rawPayload = None,
                         sub_data_data = Some (DataString hexPayload),
                         sub_data_account = Some account\<rparr>)
             else
               Inr \<lparr>sub_action = None,
                    sub_oversized = None,
                    sub_isHash = None,
                    sub_data_crypto = crypto,
                    sub_data_specVersion = specVersion,
                    sub_data_genesisHash = genesisHash,
                    sub_data_rawPayload = None,
                    sub_data_data = None,
                    sub_data_account = None\<rparr>))"

definition substratePayload ::
  "externals \<Rightarrow> (string \<rightharpoonup> SubstrateNetworkParams) \<Rightarrow> string \<Rightarrow> string \<Rightarrow> string
     \<Rightarrow> error + SubstrateCompletedParsedData" where
  \<comment> \<open>\<open>case '53'\<close>: the inner \<open>catch\<close> replaces whatever was thrown.\<close>
  "substratePayload ext networks uosAfterFrames firstByte secondByte =
     (case substrateBody ext networks uosAfterFrames firstByte secondByte of
        Inl e \<Rightarrow> Inl (MalformedSubstratePayload uosAfterFrames)
      | Inr d \<Rightarrow> Inr d)"

definition rethrow :: "error + ParsedData \<Rightarrow> error + ParsedData" where
  \<comment> \<open>The outer \<open>catch\<close>: \<open>throw new Error(e.message)\<close>, an error with the message it caught.
      Everything thrown inside the \<open>try\<close> is an \<open>Error\<close>.\<close>
  "rethrow r = (case r of Inl e \<Rightarrow> Inl e | Inr v \<Rightarrow> Inr v)"

definition constructDataFromBytes ::
  "externals \<Rightarrow> byte list \<Rightarrow> bool \<Rightarrow> (string \<rightharpoonup> SubstrateNetworkParams)
     \<Rightarrow> error + ParsedData" where
  "constructDataFromBytes ext bytes multipartComplete networks =
     (let frameInfo = hexStripPrefix (u8aToHex (take 5 bytes));
          frameCount = parseInt (substr frameInfo 2 4) 16;
          isMultipart = gt frameCount 1
      in if gt frameCount 50 then Inl MalformedFrame
         else
           let currentFrame = parseInt (substr frameInfo 6 4) 16;
               uosAfterFrames = hexStripPrefix (u8aToHex (drop 5 bytes))
           in if isMultipart \<and> \<not> multipartComplete
              then Inr (Multi \<lparr>currentFrame = currentFrame, frameCount = frameCount,
                               isMultipart = isMultipart, partData = uosAfterFrames\<rparr>)
              else
                let zerothByte = substr uosAfterFrames 0 2;
                    firstByte = substr uosAfterFrames 2 2;
                    secondByte = substr uosAfterFrames 4 2
                in rethrow
                     (if zerothByte = ''45''
                      then map_sum id Ethereum (ethereumPayload uosAfterFrames firstByte)
                      else if zerothByte = ''53''
                      then map_sum id Substrate
                             (substratePayload ext networks uosAfterFrames firstByte secondByte)
                      else Inl (UnrecognizedPayloadType bytes)))"

section \<open>Frame encodings\<close>

text \<open>
  What a scanned frame looks like, for the round trip through \<open>rawDataToU8A\<close>:
  \<open>isHexOf h bs\<close> says that \<open>h\<close> writes the bytes \<open>bs\<close> as pairs of hex digits, in
  either letter case; a length prefix is the byte count written so on one byte or on two,
  high byte first; the filler is \<open>ec11\<close> any number of times and then possibly \<open>ec\<close>.
\<close>

fun isHexOf :: "string \<Rightarrow> byte list \<Rightarrow> bool" where
  "isHexOf [] [] = True"
| "isHexOf (c1 # c2 # s) (b # bs) =
     (digitVal c1 = Some (unat b div 16) \<and> digitVal c2 = Some (unat b mod 16) \<and> isHexOf s bs)"
| "isHexOf s bs = False"

definition isLengthPrefix :: "string \<Rightarrow> nat \<Rightarrow> bool" where
  "isLengthPrefix p n =
     (n < 256 \<and> isHexOf p [word_of_nat n]
      \<or> n < 65536 \<and> isHexOf p [word_of_nat (n div 256), word_of_nat (n mod 256)])"

definition filler :: "nat \<Rightarrow> bool \<Rightarrow> string" where
  "filler k e = concat (replicate k ''ec11'') @ (if e then ''ec'' else [])"

section \<open>Frame headers and complete payloads\<close>

definition be16 :: "byte \<Rightarrow> byte \<Rightarrow> int" where
  \<comment> \<open>The number that two bytes encode, high byte first.\<close>
  "be16 hi lo = int (unat hi * 256 + unat lo)"

definition headerFrameCount :: "byte list \<Rightarrow> int" where
  \<comment> \<open>Bytes 1 and 2 of the 5-byte frame header.\<close>
  "headerFrameCount bytes = be16 (bytes ! 1) (bytes ! 2)"

definition headerCurrentFrame :: "byte list \<Rightarrow> int" where
  \<comment> \<open>Bytes 3 and 4 of the 5-byte frame header.\<close>
  "headerCurrentFrame bytes = be16 (bytes ! 3) (bytes ! 4)"

definition isComplete :: "byte list \<Rightarrow> bool \<Rightarrow> bool" where
  \<comment> \<open>The input carries a frame header that sends it on to the payload dispatch: at most
      50 frames, and a single frame or a reassembled multi-frame payload.\<close>
  "isComplete bytes multipartComplete =
     (5 \<le> length bytes \<and> headerFrameCount bytes \<le> 50
      \<and> (headerFrameCount bytes \<le> 1 \<or> multipartComplete))"

definition isPartialAssembly :: "error + ParsedData \<Rightarrow> bool" where
  "isPartialAssembly r = (case r of Inr (Multi m) \<Rightarrow> True | _ \<Rightarrow> False)"

definition decodedOversized :: "error + ParsedData \<Rightarrow> bool option" where
  \<comment> \<open>The \<open>oversized\<close> flag of a decoded Substrate payload, if there is one.\<close>
  "decodedOversized r = (case r of Inr (Substrate d) \<Rightarrow> sub_oversized d | _ \<Rightarrow> None)"

definition decodedIsHash :: "error + ParsedData \<Rightarrow> bool option" where
  \<comment> \<open>The \<open>isHash\<close> flag of a decoded Substrate payload, if there is one.\<close>
  "decodedIsHash r = (case r of Inr (Substrate d) \<Rightarrow> sub_isHash d | _ \<Rightarrow> None)"

definition decodedData :: "error + ParsedData \<Rightarrow> payload_data option" where
  \<comment> \<open>The \<open>data.data\<close> field of a decoded Substrate payload, if there is one.\<close>
  "decodedData r = (case r of Inr (Substrate d) \<Rightarrow> sub_data_data d | _ \<Rightarrow> None)"

section \<open>Sample collaborators\<close>

text \<open>
  Stand-ins for the functions and the table that the decoder receives, used to run it on
  concrete inputs: a compact prefix that is always one byte wide, a hash that tags its
  input, one address for every key, and a table with no network or with one.
\<close>

definition sampleExternals :: externals where
  "sampleExternals =
     \<lparr>compactFromU8a = (\<lambda>u8a. Some 1),
      blake2b = (\<lambda>hex. Some (''blake2b:'' @ hex)),
      encodeAddress = (\<lambda>key prefix. Some ''address'')\<rparr>"

definition noNetworks :: "string \<rightharpoonup> SubstrateNetworkParams" where
  "noNetworks = (\<lambda>genesisHash. None)"

definition sampleGenesis :: "byte list" where
  "sampleGenesis = replicate 32 7"

definition sampleNetworks :: "string \<rightharpoonup> SubstrateNetworkParams" where
  "sampleNetworks = noNetworks(u8aToHex sampleGenesis \<mapsto> \<lparr>prefix = 2\<rparr>)"

definition sampleSubstrateBytes :: "byte \<Rightarrow> byte list \<Rightarrow> byte list" where
  \<comment> \<open>One frame, Substrate, sr25519, the given command, a public key of 32 bytes \<open>09\<close>,
      the given bytes, then the sample genesis hash.\<close>
  "sampleSubstrateBytes command payload =
     [0, 0, 1, 0, 0] @ [0x53, 1, command] @ replicate 32 9 @ payload @ sampleGenesis"

definition sampleAddress :: "byte list" where
  "sampleAddress =
     [0x01, 0x23, 0x45, 0x67, 0x89, 0xab, 0xcd, 0xef, 0x10, 0x32, 0x54,
      0x76, 0x98, 0xba, 0xdc, 0xfe, 0x0f, 0x1e, 0x2d, 0x3c, 0x4b, 0x5a]"

definition sampleEthereumBytes :: "byte \<Rightarrow> byte list \<Rightarrow> byte list" where
  \<comment> \<open>One frame, Ethereum, the given action byte, the sample address, the given bytes.\<close>
  "sampleEthereumBytes actionByte payload =
     [0, 0, 1, 0, 0] @ [0x45, actionByte] @ sampleAddress @ payload"

section \<open>Facts about the string primitives\<close>

lemma substr_nat: "substr s (int a) (int n) = take n (drop a s)"
  by (auto simp: substr_def Let_def min_def max_def)

lemma substr_from_nat: "substr_from s (int a) = drop a s"
  by (auto simp: substr_from_def Let_def min_def)

lemma slice_from_nat: "slice_from s (int a) = drop a s"
  by (auto simp: slice_from_def Let_def min_def)

lemma substr_from_neg: "0 < k \<Longrightarrow> substr_from s (- int k) = drop (length s - k) s"
  by (auto simp: substr_from_def Let_def max_def nat_diff_distrib)

lemma slice_0_neg: "0 < k \<Longrightarrow> slice s 0 (- int k) = take (length s - k) s"
  by (auto simp: slice_def Let_def max_def nat_diff_distrib)

lemma substr_neg_len: "len \<le> 0 \<Longrightarrow> substr s start len = []"
  by (auto simp: substr_def Let_def min_def max_def)

lemma digit16_not_special:
  assumes "isRadixDigit 16 c"
  shows "\<not> isWhiteSpace c" "c \<noteq> CHR ''-''" "c \<noteq> CHR ''+''" "c \<noteq> CHR ''x''" "c \<noteq> CHR ''X''"
  using assms
  by (auto simp: isRadixDigit_def isWhiteSpace_def digitVal_def Let_def split: option.splits if_splits)

lemma parseInt_digits:
  assumes "Z \<noteq> []" and "\<forall>c\<in>set Z. isRadixDigit 16 c"
  shows "parseInt Z 16 = Some (int (digitsValue 16 Z))"
proof -
  obtain c Z' where Z: "Z = c # Z'" using assms(1) by (cases Z) auto
  have c: "isRadixDigit 16 c" using assms(2) Z by simp
  have ws: "dropWhile isWhiteSpace Z = Z" using digit16_not_special(1)[OF c] Z by simp
  have nox: "take 2 Z \<noteq> ''0x''" "take 2 Z \<noteq> ''0X''"
  proof -
    show "take 2 Z \<noteq> ''0x''"
    proof (cases Z')
      case Nil then show ?thesis using Z by simp
    next
      case (Cons d Z'')
      then have "isRadixDigit 16 d" using assms(2) Z by simp
      then show ?thesis using Z Cons digit16_not_special(4) by auto
    qed
    show "take 2 Z \<noteq> ''0X''"
    proof (cases Z')
      case Nil then show ?thesis using Z by simp
    next
      case (Cons d Z'')
      then have "isRadixDigit 16 d" using assms(2) Z by simp
      then show ?thesis using Z Cons digit16_not_special(5) by auto
    qed
  qed
  have sg: "take 1 Z \<noteq> ''-''" "take 1 Z \<noteq> ''+''"
    using Z digit16_not_special(2,3)[OF c] by auto
  have tw: "takeWhile (isRadixDigit 16) Z = Z" using assms(2) by (simp add: takeWhile_eq_all_conv)
  show ?thesis
    unfolding parseInt_def Let_def ws using sg nox assms(1) by (simp add: tw)
qed

lemma of_char_hexChar: "n < 16 \<Longrightarrow> (of_char (hexChar n) :: nat) = (if n < 10 then 48 + n else 87 + n)"
  by (simp add: hexChar_def)

lemma digitVal_hexChar: "n < 16 \<Longrightarrow> digitVal (hexChar n) = Some n"
  by (simp add: digitVal_def Let_def of_char_hexChar)

section \<open>Facts about hex text\<close>

lemma unat_byte_lt: "unat (b::byte) < 256"
  using unsigned_less[of b, where 'a = nat] by simp

lemma isHexOf_length: "isHexOf h bs \<Longrightarrow> length h = 2 * length bs"
  by (induction h bs rule: isHexOf.induct) auto

lemma isHexOf_digits: "isHexOf h bs \<Longrightarrow> \<forall>c\<in>set h. isRadixDigit 16 c"
proof (induction h bs rule: isHexOf.induct)
  case (2 c1 c2 s b bs)
  have "unat b div 16 < 16" "unat b mod 16 < 16" using unat_byte_lt[of b] by auto
  with 2 show ?case by (auto simp: isRadixDigit_def)
qed auto

lemma isHexOf_append: "isHexOf p a \<Longrightarrow> isHexOf h b \<Longrightarrow> isHexOf (p @ h) (a @ b)"
  by (induction p a rule: isHexOf.induct) auto

lemma isHexOf_pair:
  "isHexOf h bs \<Longrightarrow> i < length bs \<Longrightarrow> isHexOf (take 2 (drop (2 * i) h)) [bs ! i]"
proof (induction h bs arbitrary: i rule: isHexOf.induct)
  case (2 c1 c2 s b bs)
  then show ?case by (cases i) auto
qed auto

lemma parseInt_hex1:
  assumes "isHexOf s [x]"
  shows "parseInt s 16 = Some (int (unat x))"
proof -
  from assms obtain c1 c2 where s: "s = [c1, c2]"
    and d: "digitVal c1 = Some (unat x div 16)" "digitVal c2 = Some (unat x mod 16)"
  proof (cases s)
    case Nil with assms show ?thesis by simp
  next
    case (Cons c1 t)
    show ?thesis
    proof (cases t)
      case Nil with Cons assms show ?thesis by simp
    next
      case (Cons c2 u)
      with \<open>s = c1 # t\<close> assms that show ?thesis by (cases u) auto
    qed
  qed
  have "parseInt s 16 = Some (int (digitsValue 16 s))"
    using isHexOf_digits[OF assms] s by (intro parseInt_digits) auto
  also have "digitsValue 16 s = unat x" using s d by (simp add: digitsValue_def)
  finally show ?thesis .
qed

lemma parseInt_hex2:
  assumes "isHexOf s [x, y]"
  shows "parseInt s 16 = Some (int (unat x * 256 + unat y))"
    and "parseInt (take 2 s) 16 = Some (int (unat x))"
proof -
  from assms obtain c1 c2 c3 c4 where s: "s = [c1, c2, c3, c4]"
    and d: "digitVal c1 = Some (unat x div 16)" "digitVal c2 = Some (unat x mod 16)"
           "digitVal c3 = Some (unat y div 16)" "digitVal c4 = Some (unat y mod 16)"
  proof (cases s)
    case Nil with assms show ?thesis by simp
  next
    case (Cons c1 t)
    show ?thesis
    proof (cases t)
      case Nil with Cons assms show ?thesis by simp
    next
      case (Cons c2 u)
      with \<open>s = c1 # t\<close> assms have u: "isHexOf u [y]"
        and d12: "digitVal c1 = Some (unat x div 16)" "digitVal c2 = Some (unat x mod 16)"
        by auto
      from u obtain c3 c4 where "u = [c3, c4]"
        "digitVal c3 = Some (unat y div 16)" "digitVal c4 = Some (unat y mod 16)"
        by (cases u; cases "tl u"; cases "tl (tl u)") auto
      with d12 Cons \<open>s = c1 # t\<close> that show ?thesis by simp
    qed
  qed
  have "parseInt s 16 = Some (int (digitsValue 16 s))"
    using isHexOf_digits[OF assms] s by (intro parseInt_digits) auto
  also have "digitsValue 16 s = unat x * 256 + unat y" using s d by (simp add: digitsValue_def)
  finally show "parseInt s 16 = Some (int (unat x * 256 + unat y))" .
  have "isHexOf (take 2 s) [x]" using s d by simp
  then show "parseInt (take 2 s) 16 = Some (int (unat x))" by (rule parseInt_hex1)
qed

lemma isHexOf_byteToHex: "isHexOf (byteToHex b) [b]"
proof -
  have "unat b div 16 < 16" "unat b mod 16 < 16" using unat_byte_lt[of b] by auto
  then show ?thesis by (simp add: byteToHex_def digitVal_hexChar)
qed

lemma isHexOf_u8aToHexBare: "isHexOf (u8aToHexBare bs) bs"
proof (induction bs)
  case Nil show ?case by (simp add: u8aToHexBare_def)
next
  case (Cons b bs)
  have "u8aToHexBare (b # bs) = byteToHex b @ u8aToHexBare bs" by (simp add: u8aToHexBare_def)
  then show ?case using isHexOf_append[OF isHexOf_byteToHex Cons, of b] by simp
qed

section \<open>Facts about the loops of \<open>rawDataToU8A\<close>\<close>

lemma stripFiller_stop: "stripFiller (s @ ''0'') = s @ ''0''"
proof -
  have "substr_from (s @ ''0'') (- 4) \<noteq> ''ec11''"
  proof
    assume a: "substr_from (s @ ''0'') (- 4) = ''ec11''"
    have "substr_from (s @ ''0'') (- int 4) = drop (length (s @ ''0'') - 4) (s @ ''0'')"
      by (rule substr_from_neg) simp
    with a have "drop (length (s @ ''0'') - 4) (s @ ''0'') = ''ec11''" by simp
    then have "last (drop (length (s @ ''0'') - 4) (s @ ''0'')) = CHR ''1''" by simp
    then show False by (simp add: last_drop)
  qed
  then show ?thesis by (subst stripFiller.simps) simp
qed

lemma stripFiller_step: "stripFiller (x @ ''ec11'') = stripFiller x"
proof -
  have "substr_from (x @ ''ec11'') (- int 4) = drop (length (x @ ''ec11'') - 4) (x @ ''ec11'')"
    by (rule substr_from_neg) simp
  then have a: "substr_from (x @ ''ec11'') (- 4) = ''ec11''" by simp
  have "substr (x @ ''ec11'') (int 0) (int (length x)) = take (length x) (drop 0 (x @ ''ec11''))"
    by (rule substr_nat)
  then have b: "substr (x @ ''ec11'') 0 (int (length (x @ ''ec11'')) - 4) = x" by simp
  show ?thesis by (subst stripFiller.simps) (simp only: a b simp_thms if_True)
qed

lemma concat_replicate_snoc: "concat (replicate (Suc k) a) = concat (replicate k a) @ a"
  by (induction k) auto

lemma stripFiller_filler: "stripFiller (s @ ''0'' @ concat (replicate k ''ec11'')) = s @ ''0''"
proof (induction k)
  case 0
  show ?case using stripFiller_stop[of s] by simp
next
  case (Suc k)
  have "s @ ''0'' @ concat (replicate (Suc k) ''ec11'')
        = (s @ ''0'' @ concat (replicate k ''ec11'')) @ ''ec11''"
    by (simp only: concat_replicate_snoc append_assoc)
  then have "stripFiller (s @ ''0'' @ concat (replicate (Suc k) ''ec11''))
        = stripFiller (s @ ''0'' @ concat (replicate k ''ec11''))"
    by (simp only: stripFiller_step)
  then show ?case by (simp only: Suc)
qed

lemma last_filler: "last (s @ ''0'' @ concat (replicate k ''ec11'')) \<noteq> CHR ''c''"
proof (cases k)
  case 0 then show ?thesis by simp
next
  case (Suc j)
  have "s @ ''0'' @ concat (replicate (Suc j) ''ec11'')
        = (s @ ''0'' @ concat (replicate j ''ec11'')) @ ''ec11''"
    by (simp only: concat_replicate_snoc append_assoc)
  then show ?thesis using Suc by simp
qed

lemma strip_ec:
  "(if substr_from (x @ filler k e) (- 2) = ''ec''
    then substr (x @ filler k e) 0 (int (length (x @ filler k e)) - 2) else x @ filler k e)
   = x @ concat (replicate k ''ec11'')" if "x = s @ ''0''"
proof (cases e)
  case True
  let ?y = "x @ concat (replicate k ''ec11'')"
  have f: "x @ filler k e = ?y @ ''ec''" using True by (simp add: filler_def)
  have "substr_from (?y @ ''ec'') (- int 2) = drop (length (?y @ ''ec'') - 2) (?y @ ''ec'')"
    by (rule substr_from_neg) simp
  then have a: "substr_from (?y @ ''ec'') (- 2) = ''ec''" by simp
  have "substr (?y @ ''ec'') (int 0) (int (length ?y)) = take (length ?y) (drop 0 (?y @ ''ec''))"
    by (rule substr_nat)
  then have b: "substr (?y @ ''ec'') 0 (int (length (?y @ ''ec'')) - 2) = ?y" by simp
  show ?thesis unfolding f by (simp only: a b simp_thms if_True)
next
  case False
  let ?y = "x @ concat (replicate k ''ec11'')"
  have f: "x @ filler k e = ?y" using False by (simp add: filler_def)
  have ne: "?y \<noteq> []" using that by simp
  have "substr_from ?y (- int 2) = drop (length ?y - 2) ?y"
    by (rule substr_from_neg) simp
  moreover have "drop (length ?y - 2) ?y \<noteq> ''ec''"
  proof
    assume "drop (length ?y - 2) ?y = ''ec''"
    then have "last (drop (length ?y - 2) ?y) = last ''ec''" by (simp only:)
    then have "last (drop (length ?y - 2) ?y) = CHR ''c''" by (simp only: last.simps list.simps simp_thms if_False if_True)
    moreover have "length ?y - 2 < length ?y" using that by simp
    then have "last (drop (length ?y - 2) ?y) = last ?y" by (rule last_drop)
    ultimately have "last ?y = CHR ''c''" by (simp only:)
    then show False using last_filler[of s k] that by simp
  qed
  ultimately have "substr_from ?y (- 2) \<noteq> ''ec''" by simp
  then show ?thesis unfolding f by simp
qed

lemma fillBytes_map:
  "i \<le> n \<Longrightarrow> length bytes = n \<Longrightarrow>
   fillBytes h i n bytes
     = take i bytes @ map (\<lambda>j. toUint8 (parseInt (substr h (int j * 2) 2) 16)) [i..<n]"
proof (induction h i n bytes rule: fillBytes.induct)
  case (1 rawData i len bytes)
  show ?case
  proof (cases "i < len")
    case True
    let ?v = "toUint8 (parseInt (substr rawData (int i * 2) 2) 16)"
    have "fillBytes rawData i len bytes = fillBytes rawData (i + 1) len (bytes[i := ?v])"
      using True by (subst fillBytes.simps) simp
    also have "\<dots> = take (i + 1) (bytes[i := ?v])
          @ map (\<lambda>j. toUint8 (parseInt (substr rawData (int j * 2) 2) 16)) [i + 1..<len]"
      using True 1 by simp
    also have "take (i + 1) (bytes[i := ?v]) = take i bytes @ [?v]"
      using True 1(3) by (simp add: take_Suc_conv_app_nth)
    finally show ?thesis using True by (simp add: upt_conv_Cons)
  next
    case False
    with 1 show ?thesis by (subst fillBytes.simps) simp
  qed
qed

lemma fillBytes_hex:
  assumes "isHexOf h b"
  shows "fillBytes h 0 (length b) (replicate (length b) 0) = b"
proof -
  have "map (\<lambda>j. toUint8 (parseInt (substr h (int j * 2) 2) 16)) [0..<length b] = b"
  proof (rule nth_equalityI)
    show "length (map (\<lambda>j. toUint8 (parseInt (substr h (int j * 2) 2) 16)) [0..<length b]) = length b"
      by simp
  next
    fix i assume "i < length (map (\<lambda>j. toUint8 (parseInt (substr h (int j * 2) 2) 16)) [0..<length b])"
    then have i: "i < length b" by simp
    have "substr h (int (2 * i)) (int 2) = take 2 (drop (2 * i) h)" by (rule substr_nat)
    then have "substr h (int i * 2) 2 = take 2 (drop (2 * i) h)" by (simp add: mult.commute)
    then have "parseInt (substr h (int i * 2) 2) 16 = Some (int (unat (b ! i)))"
      using parseInt_hex1[OF isHexOf_pair[OF assms i]] by simp
    then show "map (\<lambda>j. toUint8 (parseInt (substr h (int j * 2) 2) 16)) [0..<length b] ! i = b ! i"
      using i by (simp add: toUint8_def)
  qed
  then show ?thesis by (simp add: fillBytes_map)
qed

section \<open>Facts about the hex codecs and the frame header\<close>

lemma hexStripPrefix_u8aToHex: "hexStripPrefix (u8aToHex bs) = u8aToHexBare bs"
  by (simp add: hexStripPrefix_def u8aToHex_def)

lemma u8aToHexBare_append: "u8aToHexBare (a @ b) = u8aToHexBare a @ u8aToHexBare b"
  by (simp add: u8aToHexBare_def)

lemma length_u8aToHexBare: "length (u8aToHexBare bs) = 2 * length bs"
  using isHexOf_length[OF isHexOf_u8aToHexBare] .

lemma u8aToHexBare_drop: "drop (2 * i) (u8aToHexBare bs) = u8aToHexBare (drop i bs)"
proof -
  have "u8aToHexBare bs = u8aToHexBare (take i bs) @ u8aToHexBare (drop i bs)"
    by (simp only: u8aToHexBare_append[symmetric] append_take_drop_id)
  moreover have "length (u8aToHexBare (take i bs)) = 2 * min (length bs) i"
    by (simp add: length_u8aToHexBare)
  ultimately show ?thesis
    by (cases "i \<le> length bs") (simp_all add: min_def length_u8aToHexBare u8aToHexBare_def)
qed

lemma u8aToHexBare_take: "take (2 * n) (u8aToHexBare bs) = u8aToHexBare (take n bs)"
proof -
  have "u8aToHexBare bs = u8aToHexBare (take n bs) @ u8aToHexBare (drop n bs)"
    by (simp only: u8aToHexBare_append[symmetric] append_take_drop_id)
  moreover have "length (u8aToHexBare (take n bs)) = 2 * min (length bs) n"
    by (simp add: length_u8aToHexBare)
  ultimately show ?thesis
    by (cases "n \<le> length bs") (simp_all add: min_def length_u8aToHexBare)
qed

lemma substr_u8aToHexBare:
  "substr (u8aToHexBare bs) (int (2 * i)) (int (2 * n)) = u8aToHexBare (take n (drop i bs))"
  by (simp only: substr_nat u8aToHexBare_drop u8aToHexBare_take)

lemma hexPairs_isHexOf: "isHexOf h bs \<Longrightarrow> hexPairs h = bs"
proof (induction h bs rule: isHexOf.induct)
  case (2 c1 c2 s b bs)
  then have "isHexOf [c1, c2] [b]" by simp
  then have "parseInt [c1, c2] 16 = Some (int (unat b))" by (rule parseInt_hex1)
  with 2 show ?case by (simp add: toUint8_def)
qed auto

lemma hexToU8a_u8aToHex: "hexToU8a (''0x'' @ u8aToHexBare bs) = bs"
  using hexPairs_isHexOf[OF isHexOf_u8aToHexBare, of bs]
  by (simp add: hexToU8a_def hexStripPrefix_def)

lemma byteToHex_inj: "byteToHex a = byteToHex b \<Longrightarrow> a = b"
proof -
  assume "byteToHex a = byteToHex b"
  then have "hexPairs (byteToHex a) = hexPairs (byteToHex b)" by simp
  then show "a = b"
    by (simp only: hexPairs_isHexOf[OF isHexOf_byteToHex] list.inject)
qed

lemma u8aToHexBare_single: "u8aToHexBare [b] = byteToHex b"
  by (simp add: u8aToHexBare_def)

lemma header_frameCount:
  assumes "5 \<le> length bytes"
  shows "parseInt (substr (u8aToHexBare (take 5 bytes)) 2 4) 16
         = Some (headerFrameCount bytes)"
proof -
  have "substr (u8aToHexBare (take 5 bytes)) (int (2 * 1)) (int (2 * 2))
        = u8aToHexBare (take 2 (drop 1 (take 5 bytes)))" by (rule substr_u8aToHexBare)
  moreover have "take 2 (drop 1 (take 5 bytes)) = [bytes ! 1, bytes ! 2]"
    using assms by (intro nth_equalityI) (auto simp: nth_Cons' less_Suc_eq numeral_2_eq_2)
  ultimately have "substr (u8aToHexBare (take 5 bytes)) 2 4
        = u8aToHexBare [bytes ! 1, bytes ! 2]"
    by simp
  then show ?thesis
    using parseInt_hex2(1)[OF isHexOf_u8aToHexBare[of "[bytes ! 1, bytes ! 2]"]]
    by (simp add: headerFrameCount_def be16_def)
qed

lemma header_currentFrame:
  assumes "5 \<le> length bytes"
  shows "parseInt (substr (u8aToHexBare (take 5 bytes)) 6 4) 16
         = Some (headerCurrentFrame bytes)"
proof -
  have "substr (u8aToHexBare (take 5 bytes)) (int (2 * 3)) (int (2 * 2))
        = u8aToHexBare (take 2 (drop 3 (take 5 bytes)))" by (rule substr_u8aToHexBare)
  moreover have "take 2 (drop 3 (take 5 bytes)) = [bytes ! 3, bytes ! 4]"
    using assms by (intro nth_equalityI) (auto simp: nth_Cons' less_Suc_eq numeral_2_eq_2)
  ultimately have "substr (u8aToHexBare (take 5 bytes)) 6 4
        = u8aToHexBare [bytes ! 3, bytes ! 4]"
    by simp
  then show ?thesis
    using parseInt_hex2(1)[OF isHexOf_u8aToHexBare[of "[bytes ! 3, bytes ! 4]"]]
    by (simp add: headerCurrentFrame_def be16_def)
qed

lemma construct_complete:
  assumes "isComplete bytes mc"
  shows "constructDataFromBytes ext bytes mc networks =
     rethrow
       (if substr (u8aToHexBare (drop 5 bytes)) 0 2 = ''45''
        then map_sum id Ethereum
               (ethereumPayload (u8aToHexBare (drop 5 bytes))
                  (substr (u8aToHexBare (drop 5 bytes)) 2 2))
        else if substr (u8aToHexBare (drop 5 bytes)) 0 2 = ''53''
        then map_sum id Substrate
               (substratePayload ext networks (u8aToHexBare (drop 5 bytes))
                  (substr (u8aToHexBare (drop 5 bytes)) 2 2)
                  (substr (u8aToHexBare (drop 5 bytes)) 4 2))
        else Inl (UnrecognizedPayloadType bytes))"
proof -
  from assms have len: "5 \<le> length bytes" and le50: "headerFrameCount bytes \<le> 50"
    and one: "headerFrameCount bytes \<le> 1 \<or> mc"
    by (simp_all add: isComplete_def)
  have g50: "gt (Some (headerFrameCount bytes)) 50 = False" using le50 by (simp add: gt_def)
  have g1: "(gt (Some (headerFrameCount bytes)) 1 \<and> \<not> mc) = False"
    using one by (auto simp: gt_def)
  show ?thesis
    unfolding constructDataFromBytes_def Let_def
    by (simp only: header_frameCount[OF len] g50 g1 if_False hexStripPrefix_u8aToHex)
qed

lemma construct_partial:
  assumes "5 \<le> length bytes" "1 < headerFrameCount bytes" "headerFrameCount bytes \<le> 50"
  shows "constructDataFromBytes ext bytes False networks =
     Inr (Multi \<lparr>currentFrame = Some (headerCurrentFrame bytes),
                 frameCount = Some (headerFrameCount bytes),
                 isMultipart = True,
                 partData = u8aToHexBare (drop 5 bytes)\<rparr>)"
proof -
  have g50: "gt (Some (headerFrameCount bytes)) 50 = False" using assms(3) by (simp add: gt_def)
  have g1: "gt (Some (headerFrameCount bytes)) 1 = True" using assms(2) by (simp add: gt_def)
  show ?thesis
    unfolding constructDataFromBytes_def Let_def
    by (simp only: header_frameCount[OF assms(1)] header_currentFrame[OF assms(1)] g50 g1
          if_False if_True simp_thms hexStripPrefix_u8aToHex)
qed

lemma construct_too_many:
  assumes "5 \<le> length bytes" "50 < headerFrameCount bytes"
  shows "constructDataFromBytes ext bytes mc networks = Inl MalformedFrame"
proof -
  have g50: "gt (Some (headerFrameCount bytes)) 50 = True" using assms(2) by (simp add: gt_def)
  show ?thesis
    unfolding constructDataFromBytes_def Let_def
    by (simp only: hexStripPrefix_u8aToHex header_frameCount[OF assms(1)] g50 if_True)
qed

section \<open>Facts about the Substrate layout\<close>

lemma byteToHex_53: "byteToHex 0x53 = ''53''"
  by code_simp

lemma byteToHex_45: "byteToHex 0x45 = ''45''"
  by code_simp

lemma byteToHex_small: "byteToHex 0 = ''00''" "byteToHex 1 = ''01''" "byteToHex 2 = ''02''" "byteToHex 3 = ''03''"
  by code_simp+

lemma substr_u8aToHexBare_cons:
  "substr (u8aToHexBare (b # bs)) 0 2 = byteToHex b"
proof -
  have "substr (u8aToHexBare (b # bs)) (int (2 * 0)) (int (2 * 1)) = u8aToHexBare (take 1 (drop 0 (b # bs)))"
    by (rule substr_u8aToHexBare)
  then show ?thesis by (simp add: u8aToHexBare_single)
qed

lemma substr_u8aToHexBare_cons2:
  "substr (u8aToHexBare (a # b # bs)) 2 2 = byteToHex b"
proof -
  have "substr (u8aToHexBare (a # b # bs)) (int (2 * 1)) (int (2 * 1)) = u8aToHexBare (take 1 (drop 1 (a # b # bs)))"
    by (rule substr_u8aToHexBare)
  then show ?thesis by (simp add: u8aToHexBare_single)
qed

lemma substr_u8aToHexBare_cons3:
  "substr (u8aToHexBare (a # b # c # bs)) 4 2 = byteToHex c"
proof -
  have "substr (u8aToHexBare (a # b # c # bs)) (int (2 * 2)) (int (2 * 1)) = u8aToHexBare (take 1 (drop 2 (a # b # c # bs)))"
    by (rule substr_u8aToHexBare)
  then show ?thesis by (simp add: u8aToHexBare_single)
qed

lemma layout_pubKey:
  assumes "length pubKey = 32"
  shows "substr (u8aToHexBare ([d, c, m] @ pubKey @ rest)) 6 64 = u8aToHexBare pubKey"
proof -
  have "substr (u8aToHexBare ([d, c, m] @ pubKey @ rest)) (int (2 * 3)) (int (2 * 32))
        = u8aToHexBare (take 32 (drop 3 ([d, c, m] @ pubKey @ rest)))"
    by (rule substr_u8aToHexBare)
  then show ?thesis using assms by simp
qed

lemma layout_tail:
  assumes "length pubKey = 32"
  shows "slice_from (u8aToHexBare ([d, c, m] @ pubKey @ rest)) 70 = u8aToHexBare rest"
proof -
  have "slice_from (u8aToHexBare ([d, c, m] @ pubKey @ rest)) (int 70)
        = drop (2 * 35) (u8aToHexBare ([d, c, m] @ pubKey @ rest))"
    by (simp only: slice_from_nat) simp
  then show ?thesis using assms by (simp only: u8aToHexBare_drop) simp
qed

lemma layout_hexPayload:
  assumes "length genesis = 32"
  shows "slice (''0x'' @ u8aToHexBare (payload @ genesis)) 0 (- 64) = ''0x'' @ u8aToHexBare payload"
proof -
  let ?s = "''0x'' @ u8aToHexBare (payload @ genesis)"
  have "slice ?s 0 (- int 64) = take (length ?s - 64) ?s" by (rule slice_0_neg) simp
  moreover have "length ?s - 64 = 2 + length (u8aToHexBare payload)"
    using assms by (simp add: length_u8aToHexBare)
  ultimately show ?thesis by (simp add: u8aToHexBare_append)
qed

lemma layout_genesisHash:
  assumes "length genesis = 32"
  shows "substr_from (''0x'' @ u8aToHexBare (payload @ genesis)) (- 64) = u8aToHexBare genesis"
proof -
  let ?s = "''0x'' @ u8aToHexBare (payload @ genesis)"
  have "substr_from ?s (- int 64) = drop (length ?s - 64) ?s" by (rule substr_from_neg) simp
  moreover have "length ?s - 64 = 2 + length (u8aToHexBare payload)"
    using assms by (simp add: length_u8aToHexBare)
  ultimately show ?thesis by (simp add: u8aToHexBare_append)
qed

lemma specVersion_NaN: "parseInt (substr s (- 70) (- 64)) 10 = None"
  by (simp add: substr_neg_len parseInt_def)

lemma substrateBody_specVersion:
  "substrateBody ext networks uos fb sb = Inr d \<Longrightarrow> sub_data_specVersion d = None"
  unfolding substrateBody_def Let_def specVersion_NaN
  by (auto split: option.splits if_splits)

lemmas layout_facts = layout_pubKey layout_tail layout_hexPayload layout_genesisHash

lemma substrateBody_unknown:
  assumes "length pubKey = 32" "length genesis = 32"
    and "networks (u8aToHex genesis) = None"
  shows "substrateBody ext networks (u8aToHexBare ([d, c, m] @ pubKey @ payload @ genesis)) fb sb
         = Inl UnknownNetwork"
proof -
  have n: "networks (''0x'' @ u8aToHexBare genesis) = None" using assms(3) by (simp add: u8aToHex_def)
  show ?thesis
    unfolding substrateBody_def Let_def
    by (simp only: layout_facts[OF assms(1)] layout_facts[OF assms(2)] hexToU8a_u8aToHex specVersion_NaN n option.case)
qed

lemma substrateBody_mortal:
  assumes "length pubKey = 32" "length genesis = 32"
    and "networks (u8aToHex genesis) = Some network"
    and "sb = CMD_SIGN_MORTAL \<or> sb = CMD_SIGN_IMMORTAL"
    and "compactFromU8a ext payload = Some offset"
    and "encodeAddress ext pubKey (prefix network) = Some account"
    and "(if 256 < length payload
          then map_option DataString (blake2b ext (u8aToHexBare (drop offset payload)))
          else Some (DataU8a payload)) = Some dat"
  shows "substrateBody ext networks (u8aToHexBare ([d, c, m] @ pubKey @ payload @ genesis)) fb sb
         = Inr \<lparr>sub_action = Some signTransaction,
                sub_oversized = Some (256 < length payload),
                sub_isHash = Some (256 < length payload),
                sub_data_crypto = (if fb = CRYPTO_ED25519 then Some ed25519
                                   else if fb = CRYPTO_SR25519 then Some sr25519 else None),
                sub_data_specVersion = None,
                sub_data_genesisHash = u8aToHex genesis,
                sub_data_rawPayload = Some payload,
                sub_data_data = Some dat,
                sub_data_account = Some account\<rparr>"
proof -
  have n: "networks (''0x'' @ u8aToHexBare genesis) = Some network"
    using assms(3) by (simp add: u8aToHex_def)
  have c: "(sb = CMD_SIGN_MORTAL \<or> sb = CMD_SIGN_IMMORTAL) = True" using assms(4) by simp
  show ?thesis
    unfolding substrateBody_def Let_def
    by (simp only: layout_facts[OF assms(1)] layout_facts[OF assms(2)] hexToU8a_u8aToHex specVersion_NaN n c
          assms(5,6,7) option.case if_True u8aToHex_def)
qed

lemma substrateBody_signData:
  assumes "length pubKey = 32" "length genesis = 32"
    and "networks (u8aToHex genesis) = Some network"
    and "sb = CMD_SIGN_HASH \<or> sb = CMD_SIGN_MSG"
    and "encodeAddress ext pubKey (prefix network) = Some account"
  shows "substrateBody ext networks (u8aToHexBare ([d, c, m] @ pubKey @ payload @ genesis)) fb sb
         = Inr \<lparr>sub_action = Some signData,
                sub_oversized = Some False,
                sub_isHash = Some (sb = CMD_SIGN_HASH),
                sub_data_crypto = (if fb = CRYPTO_ED25519 then Some ed25519
                                   else if fb = CRYPTO_SR25519 then Some sr25519 else None),
                sub_data_specVersion = None,
                sub_data_genesisHash = u8aToHex genesis,
                sub_data_rawPayload = None,
                sub_data_data = Some (DataString (u8aToHex payload)),
                sub_data_account = Some account\<rparr>"
proof -
  have n: "networks (''0x'' @ u8aToHexBare genesis) = Some network"
    using assms(3) by (simp add: u8aToHex_def)
  have c: "(sb = CMD_SIGN_MORTAL \<or> sb = CMD_SIGN_IMMORTAL) = False"
    "(sb = CMD_SIGN_HASH \<or> sb = CMD_SIGN_MSG) = True"
    using assms(4)
    by (auto simp: CMD_SIGN_MORTAL_def CMD_SIGN_IMMORTAL_def CMD_SIGN_HASH_def CMD_SIGN_MSG_def)
  have i: "(if sb = CMD_SIGN_HASH then True else False) = (sb = CMD_SIGN_HASH)" by simp
  show ?thesis
    unfolding substrateBody_def Let_def
    by (simp only: layout_facts[OF assms(1)] layout_facts[OF assms(2)] hexToU8a_u8aToHex specVersion_NaN n c i
          assms(5) option.case if_True if_False u8aToHex_def)
qed

section \<open>Facts about the payload dispatch\<close>

lemma construct_substrate:
  assumes "isComplete bytes mc"
    and "drop 5 bytes = [0x53, c, m] @ rest"
  shows "constructDataFromBytes ext bytes mc networks =
         map_sum id Substrate
           (substratePayload ext networks (u8aToHexBare ([0x53, c, m] @ rest))
              (byteToHex c) (byteToHex m))"
proof -
  have z: "substr (u8aToHexBare ([0x53, c, m] @ rest)) 0 2 = ''53''"
    using substr_u8aToHexBare_cons[of "0x53" "[c, m] @ rest"] by (simp add: byteToHex_53)
  have f: "substr (u8aToHexBare ([0x53, c, m] @ rest)) 2 2 = byteToHex c"
    using substr_u8aToHexBare_cons2[of "0x53" c "[m] @ rest"] by simp
  have s: "substr (u8aToHexBare ([0x53, c, m] @ rest)) 4 2 = byteToHex m"
    using substr_u8aToHexBare_cons3[of "0x53" c m rest] by simp
  have ne: "(''53'' = ''45'') = False" by simp
  show ?thesis
    by (simp only: construct_complete[OF assms(1)] assms(2) z f s ne if_False if_True simp_thms)
       (simp add: rethrow_def split: sum.splits)
qed

lemma construct_ethereum:
  assumes "isComplete bytes mc"
    and "drop 5 bytes = [0x45, a] @ rest"
  shows "constructDataFromBytes ext bytes mc networks =
         map_sum id Ethereum (ethereumPayload (u8aToHexBare ([0x45, a] @ rest)) (byteToHex a))"
proof -
  have z: "substr (u8aToHexBare ([0x45, a] @ rest)) 0 2 = ''45''"
    using substr_u8aToHexBare_cons[of "0x45" "[a] @ rest"] by (simp add: byteToHex_45)
  have f: "substr (u8aToHexBare ([0x45, a] @ rest)) 2 2 = byteToHex a"
    using substr_u8aToHexBare_cons2[of "0x45" a rest] by simp
  show ?thesis
    by (simp only: construct_complete[OF assms(1)] assms(2) z f if_True simp_thms)
       (simp add: rethrow_def split: sum.splits)
qed

lemma byteToHex_eq_iff:
  "byteToHex a = ''00'' \<longleftrightarrow> a = 0" "byteToHex a = ''01'' \<longleftrightarrow> a = 1"
  "byteToHex a = ''02'' \<longleftrightarrow> a = 2" "byteToHex a = ''03'' \<longleftrightarrow> a = 3"
  using byteToHex_inj[of a 0] byteToHex_inj[of a 1] byteToHex_inj[of a 2] byteToHex_inj[of a 3]
  by (auto simp: byteToHex_small)

lemma complete_not_partial:
  assumes "isComplete bytes mc"
  shows "constructDataFromBytes ext bytes mc networks \<noteq> Inr (Multi m)"
  unfolding construct_complete[OF assms] rethrow_def
  by (auto split: sum.splits if_splits simp: map_sum_def)


lemma decoded_specVersion_NaN:
  assumes "constructDataFromBytes ext bytes mc networks = Inr (Substrate d)"
  shows "sub_data_specVersion d = None"
proof -
  from assms obtain uos fb sb where "substratePayload ext networks uos fb sb = Inr d"
    unfolding constructDataFromBytes_def Let_def rethrow_def
    by (auto split: if_splits sum.splits simp: map_sum_def)
  then have "substrateBody ext networks uos fb sb = Inr d"
    by (auto simp: substratePayload_def split: sum.splits)
  then show ?thesis by (rule substrateBody_specVersion)
qed

lemma ethereum_signData_fields:
  assumes "isComplete bytes mc"
    and "drop 5 bytes = [0x45, a] @ address @ payload"
    and "length address = 22" and "a = 0 \<or> a = 1"
  shows "constructDataFromBytes ext bytes mc networks =
         Inr (Ethereum \<lparr>eth_action = Some signData,
                          eth_data_account = u8aToHexBare address,
                          eth_data_rlp = Some [u8aToHexBare address ! 9],
                          eth_data_data = None\<rparr>)"
proof -
  let ?uos = "u8aToHexBare ([0x45, a] @ address @ payload)"
  have u: "?uos = u8aToHexBare [0x45, a] @ u8aToHexBare address @ u8aToHexBare payload"
    by (simp only: u8aToHexBare_append)
  have l: "length (u8aToHexBare [0x45, a]) = 4" "length (u8aToHexBare address) = 44"
    using assms(3) by (simp_all add: length_u8aToHexBare)
  have "substr ?uos (int (2 * 2)) (int (2 * 22)) = u8aToHexBare (take 22 (drop 2 ([0x45, a] @ address @ payload)))"
    by (rule substr_u8aToHexBare)
  then have acc: "substr ?uos 4 44 = u8aToHexBare address" using assms(3) by simp
  have "(u8aToHexBare [0x45, a] @ u8aToHexBare address @ u8aToHexBare payload) ! 13
        = u8aToHexBare address ! 9"
    using l by (simp add: nth_append)
  then have "?uos ! 13 = u8aToHexBare address ! 9" by (simp only: u)
  moreover have "13 < length ?uos" using l by (simp only: u length_append)
  ultimately have c: "charAt ?uos 13 = Some [u8aToHexBare address ! 9]"
    by (simp only: charAt_def if_True)
  have f: "(byteToHex a = ''00'' \<or> byteToHex a = ''01'') = True"
    using assms(4) by (auto simp: byteToHex_small)
  have "ethereumPayload ?uos (byteToHex a)
        = Inr \<lparr>eth_action = Some signData, eth_data_account = u8aToHexBare address,
                eth_data_rlp = Some [u8aToHexBare address ! 9], eth_data_data = None\<rparr>"
    unfolding ethereumPayload_def Let_def by (simp only: f acc c if_True option.case action.case)
  then show ?thesis
    using construct_ethereum[OF assms(1), of a "address @ payload" ext networks] assms(2)
    by simp
qed

lemma construct_mortal_flags:
  assumes "isComplete bytes mc"
    and "drop 5 bytes = [0x53, c, command] @ pubKey @ payload @ genesis"
    and "length pubKey = 32" and "length genesis = 32"
    and "command = 0x00 \<or> command = 0x02"
    and "networks (u8aToHex genesis) = Some network"
    and "compactFromU8a ext payload = Some offset"
    and "encodeAddress ext pubKey (prefix network) = Some account"
    and "256 < length payload \<longrightarrow> blake2b ext (u8aToHexBare (drop offset payload)) = Some hash"
  shows "\<exists>d. constructDataFromBytes ext bytes mc networks = Inr (Substrate d)
             \<and> sub_oversized d = Some (256 < length payload)
             \<and> sub_isHash d = Some (256 < length payload)"
proof -
  have sb: "byteToHex command = CMD_SIGN_MORTAL \<or> byteToHex command = CMD_SIGN_IMMORTAL"
    using assms(5) by (auto simp: CMD_SIGN_MORTAL_def CMD_SIGN_IMMORTAL_def byteToHex_small)
  obtain dat where dat: "(if 256 < length payload
          then map_option DataString (blake2b ext (u8aToHexBare (drop offset payload)))
          else Some (DataU8a payload)) = Some dat"
    using assms(9) by (cases "256 < length payload") auto
  show ?thesis
    unfolding construct_substrate[OF assms(1,2)] substratePayload_def
      substrateBody_mortal[where networks = networks and ext = ext,
        OF assms(3,4,6) sb assms(7,8) dat]
    by simp
qed

lemma construct_signData_fields:
  assumes "isComplete bytes mc"
    and "drop 5 bytes = [0x53, c, command] @ pubKey @ payload @ genesis"
    and "length pubKey = 32" and "length genesis = 32"
    and "command = 0x01 \<or> command = 0x03"
    and "networks (u8aToHex genesis) = Some network"
    and "encodeAddress ext pubKey (prefix network) = Some account"
  shows "\<exists>d. constructDataFromBytes ext bytes mc networks = Inr (Substrate d)
             \<and> sub_action d = Some signData
             \<and> sub_oversized d = Some False
             \<and> sub_isHash d = Some (command = 0x01)
             \<and> sub_data_data d = Some (DataString (u8aToHex payload))"
proof -
  have sb: "byteToHex command = CMD_SIGN_HASH \<or> byteToHex command = CMD_SIGN_MSG"
    using assms(5) by (auto simp: CMD_SIGN_HASH_def CMD_SIGN_MSG_def byteToHex_small)
  have h: "(byteToHex command = CMD_SIGN_HASH) = (command = 0x01)"
    by (simp add: CMD_SIGN_HASH_def byteToHex_eq_iff)
  show ?thesis
    unfolding construct_substrate[OF assms(1,2)] substratePayload_def
      substrateBody_signData[where networks = networks and ext = ext, OF assms(3,4,6) sb assms(7)]
    by (simp add: h)
qed

lemma sample_substrate_facts:
  "isComplete (sampleSubstrateBytes command payload) False"
  "drop 5 (sampleSubstrateBytes command payload)
     = [0x53, 1, command] @ replicate 32 9 @ payload @ sampleGenesis"
  "length (replicate 32 (9 :: byte)) = 32"
  "length sampleGenesis = 32"
  "sampleNetworks (u8aToHex sampleGenesis) = Some \<lparr>prefix = 2\<rparr>"
  "compactFromU8a sampleExternals payload = Some 1"
  "encodeAddress sampleExternals (replicate 32 9) (prefix \<lparr>prefix = 2\<rparr>) = Some ''address''"
  "blake2b sampleExternals hex = Some (''blake2b:'' @ hex)"
  by (simp_all add: isComplete_def sampleSubstrateBytes_def headerFrameCount_def be16_def
        sampleGenesis_def sampleNetworks_def sampleExternals_def)

section \<open>The claims\<close>

text \<open>
  C1. A well-formed frame decodes to the bytes it encodes: for every byte sequence \<open>b\<close>,
  the string made of the indicator digit \<open>4\<close>, a length prefix that writes the byte count
  of \<open>b\<close> on one byte or on two bytes big-endian, the bytes of \<open>b\<close> as hex pairs, the
  terminator digit \<open>0\<close> and any filler (\<open>ec11\<close> repeated, then possibly \<open>ec\<close>) is taken
  by \<open>rawDataToU8A\<close> to exactly \<open>b\<close>.
\<close>

theorem rawDataToU8A_roundtrip:
  assumes p: "isLengthPrefix p (length b)" and h: "isHexOf h b"
  shows "rawDataToU8A (''4'' @ p @ h @ ''0'' @ filler k e) = Inr (Some b)"
proof -
  define R where "R = ''4'' @ p @ h @ ''0'' @ filler k e"
  define x where "x = (''4'' @ p @ h) @ ''0''"
  define n where "n = length b"
  have R: "R = x @ filler k e" by (simp add: R_def x_def)
  have lh: "length h = 2 * n" using isHexOf_length[OF h] by (simp add: n_def)
  have lp: "2 \<le> length p"
    using p isHexOf_length[of p] by (auto simp: isLengthPrefix_def)
  have f0: "(R = []) = False" by (simp add: R_def)
  have f1: "(if substr_from R (- 2) = ''ec'' then substr R 0 (int (length R) - 2) else R)
            = x @ concat (replicate k ''ec11'')"
    unfolding R by (rule strip_ec) (simp add: x_def)
  have f2: "stripFiller (x @ concat (replicate k ''ec11'')) = x"
    using stripFiller_filler[of "''4'' @ p @ h" k] by (simp add: x_def)
  have "substr x (int 0) (int 1) = take 1 (drop 0 x)" by (rule substr_nat)
  then have f3: "substr x 0 1 = ''4''" by (simp add: x_def)
  have "substr_from x (- int 1) = drop (length x - 1) x" by (rule substr_from_neg) simp
  then have f4: "substr_from x (- 1) = ''0''" by (simp add: x_def)
  have "substr x (int 1) (int (length x - 2)) = take (length x - 2) (drop 1 x)"
    by (rule substr_nat)
  moreover have "int (length x - 2) = int (length x) - 2" using lp by (simp add: x_def)
  ultimately have f5: "substr x 1 (int (length x) - 2) = p @ h" by (simp add: x_def)
  have "substr (p @ h) (int 0) (int 2) = take 2 (drop 0 (p @ h))" by (rule substr_nat)
  then have s2: "substr (p @ h) 0 2 = take 2 p" using lp by simp
  have "substr (p @ h) (int 0) (int 4) = take 4 (drop 0 (p @ h))" by (rule substr_nat)
  then have s4: "substr (p @ h) 0 4 = take 4 (p @ h)" by simp
  have fb: "fillBytes h 0 n (replicate n 0) = b" using fillBytes_hex[OF h] by (simp add: n_def)
  from p consider
      (one) "n < 256" "isHexOf p [word_of_nat n]"
    | (two) "n < 65536" "isHexOf p [word_of_nat (n div 256), word_of_nat (n mod 256)]"
    by (auto simp: isLengthPrefix_def n_def)
  then have "rawDataToU8A R = Inr (Some b)"
  proof cases
    case one
    have l: "length p = 2" using isHexOf_length[OF one(2)] by simp
    have "parseInt p 16 = Some (int (unat (word_of_nat n :: byte)))"
      by (rule parseInt_hex1[OF one(2)])
    moreover have "unat (word_of_nat n :: byte) = n" using one(1) by (simp add: unat_of_nat)
    ultimately have g: "orZero (parseInt (substr (p @ h) 0 2) 16) = int n"
      using l by (simp add: s2 orZero_def)
    have c1: "(orZero (parseInt (substr (p @ h) 0 2) 16) * 2 + 2 = int (length (p @ h))) = True"
      using l lh by (simp add: g)
    have "substr_from (p @ h) (int 2) = drop 2 (p @ h)" by (rule substr_from_nat)
    then have r4: "substr_from (p @ h) 2 = h" using l by simp
    have neg: "(orZero (parseInt (substr (p @ h) 0 2) 16) < 0) = False" by (simp add: g)
    have nn: "nat (orZero (parseInt (substr (p @ h) 0 2) 16)) = n" by (simp add: g)
    show ?thesis
      unfolding rawDataToU8A_def Let_def
      by (simp only: f0 f1 f2 f3 f4 f5 c1 r4 neg nn fb if_True if_False simp_thms)
  next
    case two
    have l: "length p = 4" using isHexOf_length[OF two(2)] by simp
    have hi: "unat (word_of_nat (n div 256) :: byte) = n div 256"
      using two(1) by (simp add: unat_of_nat)
    have lo: "unat (word_of_nat (n mod 256) :: byte) = n mod 256"
      by (simp add: unat_of_nat)
    have "parseInt (take 2 p) 16 = Some (int (unat (word_of_nat (n div 256) :: byte)))"
      by (rule parseInt_hex2(2)[OF two(2)])
    then have g8: "orZero (parseInt (substr (p @ h) 0 2) 16) = int (n div 256)"
      by (simp only: s2 hi orZero_def option.case)
    have "parseInt p 16 = Some (int (unat (word_of_nat (n div 256) :: byte) * 256
              + unat (word_of_nat (n mod 256) :: byte)))"
      by (rule parseInt_hex2(1)[OF two(2)])
    moreover have "n div 256 * 256 + n mod 256 = n" by simp
    ultimately have "parseInt p 16 = Some (int n)" by (simp only: hi lo)
    then have g16: "orZero (parseInt (substr (p @ h) 0 4) 16) = int n"
      using l by (simp add: s4 orZero_def)
    have "int (n div 256) * 2 + 2 \<noteq> int (length (p @ h))" using l lh by simp
    then have c1: "(orZero (parseInt (substr (p @ h) 0 2) 16) * 2 + 2 = int (length (p @ h))) = False"
      by (simp only: g8 simp_thms)
    have c2: "(orZero (parseInt (substr (p @ h) 0 4) 16) * 2 + 4 = int (length (p @ h))) = True"
      using l lh by (simp add: g16)
    have "substr_from (p @ h) (int 4) = drop 4 (p @ h)" by (rule substr_from_nat)
    then have r4: "substr_from (p @ h) 4 = h" using l by simp
    have neg: "(orZero (parseInt (substr (p @ h) 0 4) 16) < 0) = False" by (simp add: g16)
    have nn: "nat (orZero (parseInt (substr (p @ h) 0 4) 16)) = n" by (simp add: g16)
    show ?thesis
      unfolding rawDataToU8A_def Let_def
      by (simp only: f0 f1 f2 f3 f4 f5 c1 c2 r4 neg nn fb if_True if_False simp_thms)
  qed
  then show ?thesis by (simp only: R_def)
qed

theorem rawDataToU8A_roundtrip_witness:
  "isLengthPrefix ''0002'' (length [10, 27 :: byte]) \<and> isHexOf ''0A1b'' [10, 27]
   \<and> rawDataToU8A ''400020A1b0ec11ec11ec'' = Inr (Some [10, 27])"
proof -
  have p: "isLengthPrefix ''0002'' (length [10, 27 :: byte])"
    by (simp add: isLengthPrefix_def digitVal_def)
  have h: "isHexOf ''0A1b'' [10, 27]" by (simp add: digitVal_def)
  have f: "filler 2 True = ''ec11ec11ec''" by (simp add: filler_def numeral_2_eq_2)
  show ?thesis using p h rawDataToU8A_roundtrip[OF p h, of 2 True] by (simp add: f)
qed

text \<open>
  C2, as stated, fails. The claim: with command \<open>SIGN_MORTAL\<close> or \<open>SIGN_IMMORTAL\<close> and a
  known genesis hash, \<open>oversized\<close> and \<open>isHash\<close> are true exactly when the signing payload
  has more than 256 bytes, the body being the signing payload, then 4 bytes of specVersion,
  then the genesis hash. On a signing payload of exactly 256 bytes followed by the
  specVersion bytes \<open>00 00 00 09\<close> both flags are true.
\<close>

theorem oversized_at_256_counterexample:
  "length (replicate 256 (1 :: byte)) = 256
   \<and> decodedOversized
         (constructDataFromBytes sampleExternals
            (sampleSubstrateBytes 0 (replicate 256 1 @ [0, 0, 0, 9])) False sampleNetworks)
       = Some True
   \<and> decodedIsHash
         (constructDataFromBytes sampleExternals
            (sampleSubstrateBytes 0 (replicate 256 1 @ [0, 0, 0, 9])) False sampleNetworks)
       = Some True"
proof -
  have "\<exists>d. constructDataFromBytes sampleExternals
              (sampleSubstrateBytes 0 (replicate 256 1 @ [0, 0, 0, 9])) False sampleNetworks
            = Inr (Substrate d)
          \<and> sub_oversized d = Some (256 < length (replicate 256 (1 :: byte) @ [0, 0, 0, 9]))
          \<and> sub_isHash d = Some (256 < length (replicate 256 (1 :: byte) @ [0, 0, 0, 9]))"
    by (rule construct_mortal_flags[where ext = sampleExternals and networks = sampleNetworks
          and command = 0, OF sample_substrate_facts(1,2,3,4) _ sample_substrate_facts(5,6,7)])
       (simp_all add: sample_substrate_facts(8))
  then show ?thesis by (auto simp: decodedOversized_def decodedIsHash_def)
qed

text \<open>
  C2 (as amended). On a complete Substrate payload whose command byte is \<open>SIGN_MORTAL\<close>
  (\<open>00\<close>) or \<open>SIGN_IMMORTAL\<close> (\<open>02\<close>) and whose genesis hash is in the networks table, the
  decoded result has \<open>oversized\<close> and \<open>isHash\<close> both equal to "the bytes between the
  public key and the genesis hash number more than 256". Those bytes are the signing payload
  together with the 4 bytes of specVersion after it, which the decoder keeps in
  \<open>rawPayload\<close>: a signing payload of 252 bytes is not oversized, one of 253 bytes is. The
  result exists whenever the three library calls return.
\<close>

theorem substrate_oversized_counts_specVersion:
  assumes "isComplete bytes multipartComplete"
    and "drop 5 bytes
           = [0x53, cryptoByte, command] @ pubKey @ signingPayload @ specVersion @ genesis"
    and "length pubKey = 32" and "length specVersion = 4" and "length genesis = 32"
    and "command = 0x00 \<or> command = 0x02"
    and "networks (u8aToHex genesis) = Some network"
    and "compactFromU8a ext (signingPayload @ specVersion) = Some offset"
    and "encodeAddress ext pubKey (prefix network) = Some account"
    and "256 < length signingPayload + 4 \<longrightarrow>
           blake2b ext (u8aToHexBare (drop offset (signingPayload @ specVersion))) = Some hash"
  shows "\<exists>d. constructDataFromBytes ext bytes multipartComplete networks = Inr (Substrate d)
             \<and> sub_oversized d = Some (256 < length signingPayload + 4)
             \<and> sub_isHash d = Some (256 < length signingPayload + 4)"
proof -
  have d: "drop 5 bytes
           = [0x53, cryptoByte, command] @ pubKey @ (signingPayload @ specVersion) @ genesis"
    using assms(2) by simp
  have b: "256 < length (signingPayload @ specVersion) \<longrightarrow>
           blake2b ext (u8aToHexBare (drop offset (signingPayload @ specVersion))) = Some hash"
    using assms(4,10) by simp
  have "\<exists>d. constructDataFromBytes ext bytes multipartComplete networks = Inr (Substrate d)
             \<and> sub_oversized d = Some (256 < length (signingPayload @ specVersion))
             \<and> sub_isHash d = Some (256 < length (signingPayload @ specVersion))"
    by (rule construct_mortal_flags[where ext = ext and networks = networks,
          OF assms(1) d assms(3,5,6,7,8,9) b])
  then show ?thesis using assms(4) by simp
qed

theorem substrate_oversized_counts_specVersion_witness:
  "(\<exists>d. constructDataFromBytes sampleExternals
            (sampleSubstrateBytes 0 (replicate 252 1 @ [0, 0, 0, 9])) False sampleNetworks
          = Inr (Substrate d)
        \<and> sub_oversized d = Some False \<and> sub_isHash d = Some False)
   \<and> (\<exists>d. constructDataFromBytes sampleExternals
            (sampleSubstrateBytes 2 (replicate 253 1 @ [0, 0, 0, 9])) False sampleNetworks
          = Inr (Substrate d)
        \<and> sub_oversized d = Some True \<and> sub_isHash d = Some True)"
proof -
  have l: "length [0, 0, 0, 9 :: byte] = 4" by simp
  have d: "\<And>command p. drop 5 (sampleSubstrateBytes command (p @ [0, 0, 0, 9]))
             = [0x53, 1, command] @ replicate 32 9 @ p @ [0, 0, 0, 9] @ sampleGenesis"
    by (simp add: sampleSubstrateBytes_def)
  have b: "\<And>p. 256 < length p + 4 \<longrightarrow>
      blake2b sampleExternals (u8aToHexBare (drop 1 (p @ [0, 0, 0, 9])))
        = Some (''blake2b:'' @ u8aToHexBare (drop 1 (p @ [0, 0, 0, 9])))"
    by (simp add: sample_substrate_facts(8))
  show ?thesis
    using
      substrate_oversized_counts_specVersion[where ext = sampleExternals
        and networks = sampleNetworks and command = 0 and signingPayload = "replicate 252 1"
        and specVersion = "[0, 0, 0, 9]",
        OF sample_substrate_facts(1) d sample_substrate_facts(3) l sample_substrate_facts(4) _
           sample_substrate_facts(5,6,7) b]
      substrate_oversized_counts_specVersion[where ext = sampleExternals
        and networks = sampleNetworks and command = 2 and signingPayload = "replicate 253 1"
        and specVersion = "[0, 0, 0, 9]",
        OF sample_substrate_facts(1) d sample_substrate_facts(3) l sample_substrate_facts(4) _
           sample_substrate_facts(5,6,7) b]
    by simp
qed

text \<open>
  C3, as stated, fails. The claim: on a complete Substrate payload whose genesis hash is not
  a key of the networks table, \<open>constructDataFromBytes\<close> fails with the \<open>UnknownNetwork\<close>
  error kind and no other. On the sample payload and the empty table the error that reaches
  the caller is not \<open>UnknownNetwork\<close>.
\<close>

theorem unknown_network_kind_counterexample:
  "isComplete (sampleSubstrateBytes 3 [1, 2, 3]) False
   \<and> noNetworks (u8aToHex sampleGenesis) = None
   \<and> constructDataFromBytes sampleExternals (sampleSubstrateBytes 3 [1, 2, 3]) False noNetworks
       \<noteq> Inl UnknownNetwork"
  by code_simp

text \<open>
  C3 (as amended). On a complete Substrate payload whose 32-byte genesis hash at the tail is
  not a key of the networks table, \<open>constructDataFromBytes\<close> fails, and the error that
  reaches the caller is always the \<open>MalformedSubstratePayload\<close> error, the one whose
  message carries the payload as hex and that every failure inside the Substrate case ends
  in: the \<open>UnknownNetwork\<close> error is thrown inside the inner \<open>try\<close> and replaced by its
  \<open>catch\<close>.
\<close>

theorem unknown_network_is_MalformedSubstratePayload:
  assumes "isComplete bytes multipartComplete"
    and "drop 5 bytes = [0x53, cryptoByte, command] @ pubKey @ payload @ genesis"
    and "length pubKey = 32" and "length genesis = 32"
    and "networks (u8aToHex genesis) = None"
  shows "constructDataFromBytes ext bytes multipartComplete networks
         = Inl (MalformedSubstratePayload (u8aToHexBare (drop 5 bytes)))"
  unfolding construct_substrate[OF assms(1,2)] substratePayload_def
    substrateBody_unknown[where networks = networks, OF assms(3,4,5)] assms(2)
  by simp

theorem unknown_network_is_MalformedSubstratePayload_witness:
  "isComplete (sampleSubstrateBytes 3 [1, 2, 3]) False
   \<and> noNetworks (u8aToHex sampleGenesis) = None
   \<and> constructDataFromBytes sampleExternals (sampleSubstrateBytes 3 [1, 2, 3]) False noNetworks
       = Inl (MalformedSubstratePayload (u8aToHexBare (drop 5 (sampleSubstrateBytes 3 [1, 2, 3]))))"
proof -
  have c: "isComplete (sampleSubstrateBytes 3 [1, 2, 3]) False"
    by (simp add: isComplete_def sampleSubstrateBytes_def headerFrameCount_def be16_def)
  have d: "drop 5 (sampleSubstrateBytes 3 [1, 2, 3])
             = [0x53, 1, 3] @ replicate 32 9 @ [1, 2, 3] @ sampleGenesis"
    by (simp add: sampleSubstrateBytes_def)
  have l: "length (replicate 32 (9 :: byte)) = 32" "length sampleGenesis = 32"
    by (simp_all add: sampleGenesis_def)
  have n: "noNetworks (u8aToHex sampleGenesis) = None" by (simp add: noNetworks_def)
  show ?thesis
    using c n
      unknown_network_is_MalformedSubstratePayload[where ext = sampleExternals
        and networks = noNetworks, OF c d l n]
    by simp
qed

text \<open>
  C4. When the frame header announces more than 50 frames, \<open>constructDataFromBytes\<close> fails
  with the \<open>MalformedFrame\<close> error, whatever follows the header, whatever the
  \<open>multipartComplete\<close> flag, the library functions and the networks table.
\<close>

theorem frameCount_over_50_is_MalformedFrame:
  assumes "5 \<le> length bytes" and "50 < headerFrameCount bytes"
  shows "constructDataFromBytes ext bytes multipartComplete networks = Inl MalformedFrame"
  using assms by (rule construct_too_many)

theorem frameCount_over_50_is_MalformedFrame_witness:
  "5 \<le> length [0, 0, 51, 0, 0, 0x53 :: byte] \<and> 50 < headerFrameCount [0, 0, 51, 0, 0, 0x53]
   \<and> constructDataFromBytes sampleExternals [0, 0, 51, 0, 0, 0x53] True noNetworks
       = Inl MalformedFrame"
proof -
  have a: "5 \<le> length [0, 0, 51, 0, 0, 0x53 :: byte]" by simp
  have b: "50 < headerFrameCount [0, 0, 51, 0, 0, 0x53]"
    by (simp add: headerFrameCount_def be16_def)
  show ?thesis using a b frameCount_over_50_is_MalformedFrame[OF a b] by simp
qed

text \<open>
  C5, as stated, fails. The claim: a PartialAssembly is returned exactly when the header's
  frame count is greater than 1 and \<open>multipartComplete\<close> is false. A header announcing 51
  frames, decoded with \<open>multipartComplete\<close> false, gives no PartialAssembly (it gives the
  \<open>MalformedFrame\<close> error).
\<close>

theorem partial_iff_counterexample:
  "5 \<le> length [0, 0, 51, 0, 0 :: byte] \<and> 1 < headerFrameCount [0, 0, 51, 0, 0]
   \<and> \<not> isPartialAssembly
         (constructDataFromBytes sampleExternals [0, 0, 51, 0, 0] False noNetworks)"
  by code_simp

text \<open>
  C5 (as amended). \<open>constructDataFromBytes\<close> returns a PartialAssembly exactly when the
  header's frame count is greater than 1 and at most 50 and \<open>multipartComplete\<close> is false;
  so a frame count of 0 or 1 never yields one. Every PartialAssembly returned carries the
  frame count written big-endian in bytes 1-2 of the header and the current frame index
  written big-endian in bytes 3-4.
\<close>

theorem partial_iff_multiframe_within_limit:
  assumes "5 \<le> length bytes"
  shows "(isPartialAssembly (constructDataFromBytes ext bytes multipartComplete networks)
            \<longleftrightarrow> 1 < headerFrameCount bytes \<and> headerFrameCount bytes \<le> 50
                 \<and> \<not> multipartComplete)
         \<and> (\<forall>m. constructDataFromBytes ext bytes multipartComplete networks = Inr (Multi m)
                \<longrightarrow> frameCount m = Some (headerFrameCount bytes)
                    \<and> currentFrame m = Some (headerCurrentFrame bytes))"
proof -
  let ?R = "constructDataFromBytes ext bytes multipartComplete networks"
  consider (many) "50 < headerFrameCount bytes"
    | (part) "1 < headerFrameCount bytes" "headerFrameCount bytes \<le> 50" "\<not> multipartComplete"
    | (comp) "isComplete bytes multipartComplete"
    using assms unfolding isComplete_def by linarith
  then show ?thesis
  proof cases
    case many
    then have "?R = Inl MalformedFrame" using assms by (simp add: construct_too_many)
    with many show ?thesis by (simp add: isPartialAssembly_def)
  next
    case part
    then have "?R = Inr (Multi \<lparr>currentFrame = Some (headerCurrentFrame bytes),
                 frameCount = Some (headerFrameCount bytes),
                 isMultipart = True,
                 partData = u8aToHexBare (drop 5 bytes)\<rparr>)"
      using assms construct_partial[of bytes ext networks] by simp
    with part show ?thesis by (simp add: isPartialAssembly_def)
  next
    case comp
    then have n: "\<And>m. ?R \<noteq> Inr (Multi m)" by (rule complete_not_partial)
    then have "\<not> isPartialAssembly ?R"
      by (auto simp: isPartialAssembly_def split: sum.splits ParsedData.splits)
    moreover have "\<not> (1 < headerFrameCount bytes \<and> headerFrameCount bytes \<le> 50
                       \<and> \<not> multipartComplete)"
      using comp by (auto simp: isComplete_def)
    ultimately show ?thesis using n by simp
  qed
qed

theorem partial_iff_multiframe_within_limit_witness:
  "5 \<le> length [0, 0, 3, 0, 2, 0x99 :: byte]
   \<and> isPartialAssembly
        (constructDataFromBytes sampleExternals [0, 0, 3, 0, 2, 0x99] False noNetworks)
   \<and> \<not> isPartialAssembly
          (constructDataFromBytes sampleExternals [0, 0, 3, 0, 2, 0x99] True noNetworks)
   \<and> \<not> isPartialAssembly
          (constructDataFromBytes sampleExternals [0, 0, 1, 0, 0, 0x99] False noNetworks)"
proof -
  have a: "5 \<le> length [0, 0, 3, 0, 2, 0x99 :: byte]" by simp
  have b: "5 \<le> length [0, 0, 1, 0, 0, 0x99 :: byte]" by simp
  show ?thesis
    using a
      partial_iff_multiframe_within_limit[OF a, of sampleExternals False noNetworks]
      partial_iff_multiframe_within_limit[OF a, of sampleExternals True noNetworks]
      partial_iff_multiframe_within_limit[OF b, of sampleExternals False noNetworks]
    by (simp add: headerFrameCount_def be16_def)
qed

text \<open>
  C6, as stated, fails. The claim: with command \<open>SIGN_HASH\<close> or \<open>SIGN_MSG\<close> and a known
  genesis hash, the data of the result is the signing payload as a hex string, the body
  being the signing payload, then 4 bytes of specVersion, then the genesis hash. On the
  signing payload \<open>ab cd\<close> followed by the specVersion bytes \<open>00 00 00 09\<close> the data is
  \<open>0xabcd00000009\<close>, which is not the hex of \<open>ab cd\<close>, with or without \<open>0x\<close>.
\<close>

theorem signData_data_counterexample:
  "decodedData
     (constructDataFromBytes sampleExternals
        (sampleSubstrateBytes 3 ([0xab, 0xcd] @ [0, 0, 0, 9])) False sampleNetworks)
     = Some (DataString ''0xabcd00000009'')
   \<and> u8aToHex [0xab, 0xcd] \<noteq> ''0xabcd00000009''
   \<and> u8aToHexBare [0xab, 0xcd] \<noteq> ''0xabcd00000009''"
proof -
  have "\<exists>d. constructDataFromBytes sampleExternals
              (sampleSubstrateBytes 3 ([0xab, 0xcd] @ [0, 0, 0, 9])) False sampleNetworks
            = Inr (Substrate d)
          \<and> sub_action d = Some signData
          \<and> sub_oversized d = Some False
          \<and> sub_isHash d = Some ((3 :: byte) = 0x01)
          \<and> sub_data_data d = Some (DataString (u8aToHex ([0xab, 0xcd] @ [0, 0, 0, 9])))"
    by (rule construct_signData_fields[where ext = sampleExternals
          and networks = sampleNetworks and command = 3,
          OF sample_substrate_facts(1,2,3,4) _ sample_substrate_facts(5,7)])
       simp
  moreover have "u8aToHex ([0xab, 0xcd] @ [0, 0, 0, 9]) = ''0xabcd00000009''" by code_simp
  ultimately have "decodedData
     (constructDataFromBytes sampleExternals
        (sampleSubstrateBytes 3 ([0xab, 0xcd] @ [0, 0, 0, 9])) False sampleNetworks)
     = Some (DataString ''0xabcd00000009'')"
    by (auto simp: decodedData_def)
  moreover have "u8aToHex [0xab, 0xcd] \<noteq> ''0xabcd00000009''" by code_simp
  moreover have "u8aToHexBare [0xab, 0xcd] \<noteq> ''0xabcd00000009''" by code_simp
  ultimately show ?thesis by simp
qed

text \<open>
  C6 (as amended). On a complete Substrate payload whose command byte is \<open>SIGN_HASH\<close>
  (\<open>01\<close>) or \<open>SIGN_MSG\<close> (\<open>03\<close>) and whose genesis hash is in the networks table, the
  decoded result has the action \<open>signData\<close>, \<open>oversized\<close> false whatever the length of the
  signing payload, \<open>isHash\<close> true exactly for \<open>SIGN_HASH\<close>, and as data the hex string,
  after \<open>0x\<close>, of every byte between the public key and the genesis hash: the signing
  payload together with the 4 bytes of specVersion after it, neither hashed nor cut after a
  compact prefix. The result exists whenever the address encoding returns.
\<close>

theorem sign_hash_and_msg_decode_to_signData:
  assumes "isComplete bytes multipartComplete"
    and "drop 5 bytes
           = [0x53, cryptoByte, command] @ pubKey @ signingPayload @ specVersion @ genesis"
    and "length pubKey = 32" and "length specVersion = 4" and "length genesis = 32"
    and "command = 0x01 \<or> command = 0x03"
    and "networks (u8aToHex genesis) = Some network"
    and "encodeAddress ext pubKey (prefix network) = Some account"
  shows "\<exists>d. constructDataFromBytes ext bytes multipartComplete networks = Inr (Substrate d)
             \<and> sub_action d = Some signData
             \<and> sub_oversized d = Some False
             \<and> sub_isHash d = Some (command = 0x01)
             \<and> sub_data_data d = Some (DataString (u8aToHex (signingPayload @ specVersion)))"
proof -
  have d: "drop 5 bytes
           = [0x53, cryptoByte, command] @ pubKey @ (signingPayload @ specVersion) @ genesis"
    using assms(2) by simp
  show ?thesis
    by (rule construct_signData_fields[where ext = ext and networks = networks,
          OF assms(1) d assms(3,5,6,7,8)])
qed

theorem sign_hash_and_msg_decode_to_signData_witness:
  "(\<exists>d. constructDataFromBytes sampleExternals
            (sampleSubstrateBytes 1 (replicate 300 1 @ [0, 0, 0, 9])) False sampleNetworks
          = Inr (Substrate d)
        \<and> sub_action d = Some signData \<and> sub_oversized d = Some False
        \<and> sub_isHash d = Some True
        \<and> sub_data_data d = Some (DataString (u8aToHex (replicate 300 1 @ [0, 0, 0, 9]))))
   \<and> (\<exists>d. constructDataFromBytes sampleExternals
            (sampleSubstrateBytes 3 ([0xab, 0xcd] @ [0, 0, 0, 9])) False sampleNetworks
          = Inr (Substrate d)
        \<and> sub_action d = Some signData \<and> sub_oversized d = Some False
        \<and> sub_isHash d = Some False
        \<and> sub_data_data d = Some (DataString ''0xabcd00000009''))"
proof -
  have l: "length [0, 0, 0, 9 :: byte] = 4" by simp
  have d: "\<And>command p. drop 5 (sampleSubstrateBytes command (p @ [0, 0, 0, 9]))
             = [0x53, 1, command] @ replicate 32 9 @ p @ [0, 0, 0, 9] @ sampleGenesis"
    by (simp add: sampleSubstrateBytes_def)
  have x: "u8aToHex [0xab, 0xcd, 0, 0, 0, 9] = ''0xabcd00000009''" by code_simp
  show ?thesis
    using
      sign_hash_and_msg_decode_to_signData[where ext = sampleExternals
        and networks = sampleNetworks and command = 1 and signingPayload = "replicate 300 1"
        and specVersion = "[0, 0, 0, 9]",
        OF sample_substrate_facts(1) d sample_substrate_facts(3) l sample_substrate_facts(4) _
           sample_substrate_facts(5,7)]
      sign_hash_and_msg_decode_to_signData[where ext = sampleExternals
        and networks = sampleNetworks and command = 3 and signingPayload = "[0xab, 0xcd]"
        and specVersion = "[0, 0, 0, 9]",
        OF sample_substrate_facts(1) d sample_substrate_facts(3) l sample_substrate_facts(4) _
           sample_substrate_facts(5,7)]
    by (simp add: x)
qed

text \<open>
  C7. The claim: the \<open>specVersion\<close> of a decoded Substrate payload is the integer written
  in the 4 bytes before the genesis hash. The decoder reads it with
  \<open>hexEncodedData.substr(-70, -64)\<close>, whose negative length selects nothing, so the field
  is \<open>NaN\<close> on every payload; here on the sample payload that ends, before the genesis
  hash, with the bytes \<open>00 00 00 09\<close>.
\<close>

theorem specVersion_of_sample_is_NaN:
  "constructDataFromBytes sampleExternals (sampleSubstrateBytes 0 [1, 2, 0, 0, 0, 9]) False
     sampleNetworks
   = Inr (Substrate
       \<lparr>sub_action = Some signTransaction, sub_oversized = Some False,
          sub_isHash = Some False, sub_data_crypto = Some sr25519,
          sub_data_specVersion = None,
          sub_data_genesisHash =
            ''0x0707070707070707070707070707070707070707070707070707070707070707'',
          sub_data_rawPayload = Some [1, 2, 0, 0, 0, 9],
          sub_data_data = Some (DataU8a [1, 2, 0, 0, 0, 9]),
          sub_data_account = Some ''address''\<rparr>)"
  by code_simp

text \<open>
  C8. On a complete Ethereum payload the action byte decides: \<open>00\<close> and \<open>01\<close> give a
  result whose action is \<open>signData\<close>, every other value makes the decoder fail with the
  \<open>MalformedAction\<close> error.
\<close>

theorem ethereum_action_byte:
  assumes "isComplete bytes multipartComplete"
    and "drop 5 bytes = [0x45, actionByte] @ rest"
  shows "(actionByte = 0x00 \<or> actionByte = 0x01 \<longrightarrow>
            (\<exists>d. constructDataFromBytes ext bytes multipartComplete networks = Inr (Ethereum d)
                  \<and> eth_action d = Some signData))
         \<and> (actionByte \<noteq> 0x00 \<and> actionByte \<noteq> 0x01 \<longrightarrow>
              constructDataFromBytes ext bytes multipartComplete networks = Inl MalformedAction)"
  unfolding construct_ethereum[OF assms] ethereumPayload_def Let_def
  by (auto simp: byteToHex_eq_iff)

theorem ethereum_action_byte_witness:
  "isComplete (sampleEthereumBytes 1 [0xaa]) False
   \<and> (\<exists>d. constructDataFromBytes sampleExternals (sampleEthereumBytes 1 [0xaa]) False noNetworks
             = Inr (Ethereum d) \<and> eth_action d = Some signData)
   \<and> constructDataFromBytes sampleExternals (sampleEthereumBytes 2 [0xaa]) False noNetworks
       = Inl MalformedAction"
proof -
  have c: "\<And>a payload. isComplete (sampleEthereumBytes a payload) False"
    by (simp add: isComplete_def sampleEthereumBytes_def headerFrameCount_def be16_def)
  have d: "\<And>a payload. drop 5 (sampleEthereumBytes a payload) = [0x45, a] @ (sampleAddress @ payload)"
    by (simp add: sampleEthereumBytes_def)
  show ?thesis
    using c[of 1 "[0xaa]"]
      ethereum_action_byte[where ext = sampleExternals and networks = noNetworks
        and actionByte = 1 and rest = "sampleAddress @ [0xaa]", OF c d]
      ethereum_action_byte[where ext = sampleExternals and networks = noNetworks
        and actionByte = 2 and rest = "sampleAddress @ [0xaa]", OF c d]
    by simp
qed

text \<open>
  C9. The claim: a decoded Ethereum payload has the 22-byte address field as its account and
  all the bytes after that field as its data. The account is so; but the decoder stores
  \<open>uosAfterFrames[13]\<close>, the single hex digit at index 13 of the payload text, which lies
  inside the address field, and stores it in the \<open>rlp\<close> field, leaving the \<open>data\<close> field
  unset. Here the sample payload carries the bytes \<open>aa bb cc\<close> after the address.
\<close>

theorem ethereum_data_of_sample_is_one_digit:
  "constructDataFromBytes sampleExternals (sampleEthereumBytes 0 [0xaa, 0xbb, 0xcc]) False
     noNetworks
   = Inr (Ethereum
       \<lparr>eth_action = Some signData,
          eth_data_account = ''0123456789abcdef1032547698badcfe0f1e2d3c4b5a'',
          eth_data_rlp = Some ''9'', eth_data_data = None\<rparr>)"
  by code_simp

text \<open>
  C10. A frame of a multi-frame payload (more than 1 and at most 50 frames announced) that
  is decoded with \<open>multipartComplete\<close> false comes back as a PartialAssembly built from the
  header and the hex text of the rest: the call returns, so none of the errors of the
  payload dispatch can arise, whatever the bytes after the header, the library functions
  and the networks table.
\<close>

theorem partial_frame_ignores_body:
  assumes "5 \<le> length bytes" and "1 < headerFrameCount bytes"
    and "headerFrameCount bytes \<le> 50"
  shows "constructDataFromBytes ext bytes False networks =
     Inr (Multi \<lparr>currentFrame = Some (headerCurrentFrame bytes),
                 frameCount = Some (headerFrameCount bytes),
                 isMultipart = True,
                 partData = u8aToHexBare (drop 5 bytes)\<rparr>)"
  using assms by (rule construct_partial)

theorem partial_frame_ignores_body_witness:
  "5 \<le> length [0, 0, 3, 0, 2, 0x99, 0xff :: byte]
   \<and> 1 < headerFrameCount [0, 0, 3, 0, 2, 0x99, 0xff]
   \<and> headerFrameCount [0, 0, 3, 0, 2, 0x99, 0xff] \<le> 50
   \<and> constructDataFromBytes sampleExternals [0, 0, 3, 0, 2, 0x99, 0xff] False noNetworks =
     Inr (Multi \<lparr>currentFrame = Some 2, frameCount = Some 3, isMultipart = True,
                 partData = ''99ff''\<rparr>)"
proof -
  have a: "5 \<le> length [0, 0, 3, 0, 2, 0x99, 0xff :: byte]" by simp
  have b: "1 < headerFrameCount [0, 0, 3, 0, 2, 0x99, 0xff]"
    by (simp add: headerFrameCount_def be16_def)
  have c: "headerFrameCount [0, 0, 3, 0, 2, 0x99, 0xff] \<le> 50"
    by (simp add: headerFrameCount_def be16_def)
  have d: "u8aToHexBare [0x99, 0xff] = ''99ff''" by code_simp
  show ?thesis using a b c partial_frame_ignores_body[OF a b c, of sampleExternals noNetworks]
    by (simp add: headerFrameCount_def headerCurrentFrame_def be16_def d)
qed

end
